theory Spec2Isabelle
  imports Main "HOL-Library.Sublist" "HOL-Library.Word" "HOL-Library.Char_ord"
    "HOL-Library.List_Lexorder"
begin

section \<open>Strings of the runtime\<close>

text \<open>
  The notes server (\<^verbatim>\<open>src/index.js\<close>) works on JavaScript strings. A string is modelled
  as a \<^typ>\<open>string\<close>, each \<^typ>\<open>char\<close> standing for one code unit in the range
  \<open>0..255\<close> (Basic Latin and Latin-1 Supplement). On that range the built-ins the
  program calls are given in full by small tables of ECMAScript: \<^verbatim>\<open>toLowerCase\<close>
  maps \<open>A-Z\<close>, \<open>U+00C0-U+00D6\<close> and \<open>U+00D8-U+00DE\<close> to the code unit 32 above
  and keeps every other one; \<^verbatim>\<open>trim\<close> and the class \<^verbatim>\<open>\s\<close> know the white space
  TAB, LF, VT, FF, CR, SPACE and NO-BREAK SPACE; the class \<^verbatim>\<open>\w\<close> (no \<^verbatim>\<open>u\<close> or
  \<^verbatim>\<open>i\<close> flag) is \<open>[A-Za-z0-9_]\<close>.
\<close>

definition code :: "char \<Rightarrow> nat" where
  "code c = of_char c"

definition isUpperCase :: "char \<Rightarrow> bool" where
  "isUpperCase c \<longleftrightarrow>
     (65 \<le> code c \<and> code c \<le> 90) \<or> (192 \<le> code c \<and> code c \<le> 214) \<or>
     (216 \<le> code c \<and> code c \<le> 222)"

definition lowerChar :: "char \<Rightarrow> char" where
  "lowerChar c = (if isUpperCase c then char_of (code c + 32) else c)"

text \<open>\<^verbatim>\<open>String.prototype.toLowerCase\<close>.\<close>

definition toLowerCase :: "string \<Rightarrow> string" where
  "toLowerCase s = map lowerChar s"

text \<open>The white space of \<^verbatim>\<open>trim\<close> and of \<^verbatim>\<open>\s\<close>.\<close>

definition isWhiteSpace :: "char \<Rightarrow> bool" where
  "isWhiteSpace c \<longleftrightarrow> code c \<in> {9, 10, 11, 12, 13, 32, 160}"

text \<open>The class \<^verbatim>\<open>\w\<close>.\<close>

definition isWordChar :: "char \<Rightarrow> bool" where
  "isWordChar c \<longleftrightarrow>
     (48 \<le> code c \<and> code c \<le> 57) \<or> (65 \<le> code c \<and> code c \<le> 90) \<or> code c = 95 \<or>
     (97 \<le> code c \<and> code c \<le> 122)"

definition isHyphen :: "char \<Rightarrow> bool" where
  "isHyphen c \<longleftrightarrow> c = CHR ''-''"

text \<open>\<^verbatim>\<open>String.prototype.trim\<close>: white space is dropped at both ends.\<close>

definition trim :: "string \<Rightarrow> string" where
  "trim s = rev (dropWhile isWhiteSpace (rev (dropWhile isWhiteSpace s)))"

text \<open>
  \<^verbatim>\<open>s.replace(/[class]/g, r)\<close>: every code unit of the class is replaced by \<open>r\<close>, the
  others are kept.
\<close>

fun replaceEach :: "(char \<Rightarrow> bool) \<Rightarrow> string \<Rightarrow> string \<Rightarrow> string" where
  "replaceEach P r [] = []"
| "replaceEach P r (c # cs) = (if P c then r @ replaceEach P r cs else c # replaceEach P r cs)"

text \<open>
  \<^verbatim>\<open>s.replace(/[class]+/g, r)\<close>: the scan goes from left to right; at a code unit of
  the class the greedy \<^verbatim>\<open>+\<close> takes the whole run, \<open>r\<close> is written for it and the scan
  goes on behind the run.
\<close>

function replaceRuns :: "(char \<Rightarrow> bool) \<Rightarrow> string \<Rightarrow> string \<Rightarrow> string" where
  "replaceRuns P r [] = []"
| "replaceRuns P r (c # cs) =
     (if P c then r @ replaceRuns P r (dropWhile P cs) else c # replaceRuns P r cs)"
  by pat_completeness auto
termination
  by (relation "measure (\<lambda>(P, r, s). length s)")
     (auto simp: length_dropWhile_le less_Suc_eq_le)

section \<open>Slug derivation\<close>

text \<open>
  \<^verbatim>\<open>
  function slugify(text) {
    return text
      .toLowerCase()
      .trim()
      .replace(/[^\w\s-]/g, "")
      .replace(/\s+/g, "-")
      .replace(/-+/g, "-");
  }
  \<close>
\<close>

definition slugify :: "string \<Rightarrow> string" where
  "slugify text =
     replaceRuns isHyphen ''-''
       (replaceRuns isWhiteSpace ''-''
         (replaceEach (\<lambda>c. \<not> (isWordChar c \<or> isWhiteSpace c \<or> isHyphen c)) ''''
           (trim (toLowerCase text))))"


subsection \<open>The pipeline as the specification words it\<close>

text \<open>
  The specification gives the algorithm in five steps: lower-case the input; trim leading
  and trailing white space; remove every character that is not a word character, white
  space or hyphen; replace each run of white space with a single hyphen; collapse each
  run of consecutive hyphens into one. Each step is written here from these words alone,
  by recursion on the text, to be compared with \<^const>\<open>slugify\<close>.
\<close>

primrec lowerCased :: "string \<Rightarrow> string" where
  "lowerCased [] = []"
| "lowerCased (c # cs) = lowerChar c # lowerCased cs"

fun dropLeadingSpace :: "string \<Rightarrow> string" where
  "dropLeadingSpace [] = []"
| "dropLeadingSpace (c # cs) = (if isWhiteSpace c then dropLeadingSpace cs else c # cs)"

fun dropTrailingSpace :: "string \<Rightarrow> string" where
  "dropTrailingSpace [] = []"
| "dropTrailingSpace (c # cs) =
     (if isWhiteSpace c \<and> dropTrailingSpace cs = [] then [] else c # dropTrailingSpace cs)"

fun removeForeign :: "string \<Rightarrow> string" where
  "removeForeign [] = []"
| "removeForeign (c # cs) =
     (if isWordChar c \<or> isWhiteSpace c \<or> c = CHR ''-'' then c # removeForeign cs
      else removeForeign cs)"

fun hyphenateSpaceRuns :: "string \<Rightarrow> string" where
  "hyphenateSpaceRuns (a # b # cs) =
     (if isWhiteSpace a \<and> isWhiteSpace b then hyphenateSpaceRuns (b # cs)
      else (if isWhiteSpace a then CHR ''-'' else a) # hyphenateSpaceRuns (b # cs))"
| "hyphenateSpaceRuns [a] = (if isWhiteSpace a then ''-'' else [a])"
| "hyphenateSpaceRuns [] = []"

fun collapseHyphenRuns :: "string \<Rightarrow> string" where
  "collapseHyphenRuns (a # b # cs) =
     (if a = CHR ''-'' \<and> b = CHR ''-'' then collapseHyphenRuns (b # cs)
      else a # collapseHyphenRuns (b # cs))"
| "collapseHyphenRuns [a] = [a]"
| "collapseHyphenRuns [] = []"

definition referenceSlug :: "string \<Rightarrow> string" where
  "referenceSlug text =
     collapseHyphenRuns (hyphenateSpaceRuns (removeForeign
       (dropTrailingSpace (dropLeadingSpace (lowerCased text)))))"

subsection \<open>Shape of a slug\<close>

definition isSlugChar :: "char \<Rightarrow> bool" where
  "isSlugChar c \<longleftrightarrow> (isWordChar c \<and> \<not> isUpperCase c) \<or> isHyphen c"

fun adjacentHyphens :: "string \<Rightarrow> bool" where
  "adjacentHyphens (a # b # cs) = ((isHyphen a \<and> isHyphen b) \<or> adjacentHyphens (b # cs))"
| "adjacentHyphens [a] = False"
| "adjacentHyphens [] = False"

section \<open>Texts and their UTF-8 encoding\<close>

text \<open>
  The text of a note is an arbitrary JavaScript string: a sequence of 16-bit code units,
  among which surrogates may stand unpaired. The embedding \<open>utf16\<close> takes a string of
  the model above to its code units. \<^verbatim>\<open>fs.writeFileSync(path, text, "utf-8")\<close> writes
  the UTF-8 encoding of the text, and \<^verbatim>\<open>fs.readFileSync(path, "utf-8")\<close> decodes the
  bytes of the file; both are modelled in full. The encoder reads the text as code points,
  a high surrogate followed by a low one being one code point above \<open>U+FFFF\<close> and any
  other surrogate being replaced by \<open>U+FFFD\<close>. The decoder replaces every ill-formed
  sequence by \<open>U+FFFD\<close>, one for each maximal subpart, and keeps a byte order mark.
\<close>

type_synonym code_unit = "16 word"

type_synonym js_text = "code_unit list"

type_synonym byte = "8 word"

definition utf16 :: "string \<Rightarrow> js_text" where
  "utf16 s = map of_char s"

definition isHighSurrogate :: "code_unit \<Rightarrow> bool" where
  "isHighSurrogate u \<longleftrightarrow> 0xD800 \<le> unat u \<and> unat u \<le> 0xDBFF"

definition isLowSurrogate :: "code_unit \<Rightarrow> bool" where
  "isLowSurrogate u \<longleftrightarrow> 0xDC00 \<le> unat u \<and> unat u \<le> 0xDFFF"

definition isSurrogate :: "code_unit \<Rightarrow> bool" where
  "isSurrogate u \<longleftrightarrow> isHighSurrogate u \<or> isLowSurrogate u"

text \<open>The code points that the encoder reads from a text.\<close>

fun codePoints :: "js_text \<Rightarrow> nat list" where
  "codePoints (u # v # us) =
     (if isHighSurrogate u \<and> isLowSurrogate v
      then (0x10000 + (unat u - 0xD800) * 0x400 + (unat v - 0xDC00)) # codePoints us
      else (if isSurrogate u then 0xFFFD else unat u) # codePoints (v # us))"
| "codePoints [u] = [if isSurrogate u then 0xFFFD else unat u]"
| "codePoints [] = []"

text \<open>The one to four bytes of a code point, as numbers.\<close>

definition encodeCodePoint :: "nat \<Rightarrow> nat list" where
  "encodeCodePoint cp =
     (if cp < 0x80 then [cp]
      else if cp < 0x800 then [0xC0 + cp div 0x40, 0x80 + cp mod 0x40]
      else if cp < 0x10000 then
        [0xE0 + cp div 0x1000, 0x80 + cp div 0x40 mod 0x40, 0x80 + cp mod 0x40]
      else
        [0xF0 + cp div 0x40000, 0x80 + cp div 0x1000 mod 0x40, 0x80 + cp div 0x40 mod 0x40,
         0x80 + cp mod 0x40])"

text \<open>\<^verbatim>\<open>Buffer.from(text, "utf-8")\<close>.\<close>

definition utf8Encode :: "js_text \<Rightarrow> byte list" where
  "utf8Encode t = map of_nat (concat (map encodeCodePoint (codePoints t)))"

definition isContinuation :: "nat \<Rightarrow> bool" where
  "isContinuation b \<longleftrightarrow> 0x80 \<le> b \<and> b \<le> 0xBF"

text \<open>
  The second byte of a sequence of three or four: the bounds exclude over-long forms,
  surrogates and code points above \<open>U+10FFFF\<close>.
\<close>

definition secondByteOk :: "nat \<Rightarrow> nat \<Rightarrow> bool" where
  "secondByteOk b0 b1 \<longleftrightarrow>
     (if b0 = 0xE0 then 0xA0 else if b0 = 0xF0 then 0x90 else 0x80) \<le> b1 \<and>
     b1 \<le> (if b0 = 0xED then 0x9F else if b0 = 0xF4 then 0x8F else 0xBF)"

text \<open>
  The code points that the decoder reads from bytes. After an ill-formed start the scan
  goes on at the byte that did not fit.
\<close>

fun decodePoints :: "nat list \<Rightarrow> nat list" where
  "decodePoints [] = []"
| "decodePoints (b0 # bs) =
     (if b0 < 0x80 then b0 # decodePoints bs
      else if 0xC2 \<le> b0 \<and> b0 \<le> 0xDF then
        (case bs of
           [] \<Rightarrow> [0xFFFD]
         | b1 # bs1 \<Rightarrow>
             if isContinuation b1
             then ((b0 - 0xC0) * 0x40 + (b1 - 0x80)) # decodePoints bs1
             else 0xFFFD # decodePoints bs)
      else if 0xE0 \<le> b0 \<and> b0 \<le> 0xEF then
        (case bs of
           [] \<Rightarrow> [0xFFFD]
         | b1 # bs1 \<Rightarrow>
             if \<not> secondByteOk b0 b1 then 0xFFFD # decodePoints bs
             else
               (case bs1 of
                  [] \<Rightarrow> [0xFFFD]
                | b2 # bs2 \<Rightarrow>
                    if isContinuation b2
                    then ((b0 - 0xE0) * 0x1000 + (b1 - 0x80) * 0x40 + (b2 - 0x80)) #
                         decodePoints bs2
                    else 0xFFFD # decodePoints bs1))
      else if 0xF0 \<le> b0 \<and> b0 \<le> 0xF4 then
        (case bs of
           [] \<Rightarrow> [0xFFFD]
         | b1 # bs1 \<Rightarrow>
             if \<not> secondByteOk b0 b1 then 0xFFFD # decodePoints bs
             else
               (case bs1 of
                  [] \<Rightarrow> [0xFFFD]
                | b2 # bs2 \<Rightarrow>
                    if \<not> isContinuation b2 then 0xFFFD # decodePoints bs1
                    else
                      (case bs2 of
                         [] \<Rightarrow> [0xFFFD]
                       | b3 # bs3 \<Rightarrow>
                           if isContinuation b3
                           then ((b0 - 0xF0) * 0x40000 + (b1 - 0x80) * 0x1000 +
                                 (b2 - 0x80) * 0x40 + (b3 - 0x80)) # decodePoints bs3
                           else 0xFFFD # decodePoints bs2)))
      else 0xFFFD # decodePoints bs)"

text \<open>The code units of a code point: one, or a surrogate pair.\<close>

definition codeUnits :: "nat \<Rightarrow> js_text" where
  "codeUnits cp =
     (if cp < 0x10000 then [of_nat cp]
      else [of_nat (0xD800 + (cp - 0x10000) div 0x400), of_nat (0xDC00 + (cp - 0x10000) mod 0x400)])"

text \<open>\<^verbatim>\<open>buffer.toString("utf-8")\<close>.\<close>

definition utf8Decode :: "byte list \<Rightarrow> js_text" where
  "utf8Decode bs = concat (map codeUnits (decodePoints (map unat bs)))"

text \<open>
  \<^verbatim>\<open>String.prototype.toWellFormed\<close> and \<^verbatim>\<open>String.prototype.isWellFormed\<close>: a text is
  well formed when no surrogate in it is unpaired, and it is made so by writing
  \<open>U+FFFD\<close> for each unpaired one.
\<close>

fun toWellFormed :: "js_text \<Rightarrow> js_text" where
  "toWellFormed (u # v # us) =
     (if isHighSurrogate u \<and> isLowSurrogate v then u # v # toWellFormed us
      else (if isSurrogate u then 0xFFFD else u) # toWellFormed (v # us))"
| "toWellFormed [u] = [if isSurrogate u then 0xFFFD else u]"
| "toWellFormed [] = []"

fun isWellFormed :: "js_text \<Rightarrow> bool" where
  "isWellFormed (u # v # us) =
     (if isHighSurrogate u \<and> isLowSurrogate v then isWellFormed us
      else \<not> isSurrogate u \<and> isWellFormed (v # us))"
| "isWellFormed [u] = (\<not> isSurrogate u)"
| "isWellFormed [] = True"

text \<open>A code point that UTF-8 encodes: at most \<open>U+10FFFF\<close> and no surrogate.\<close>

definition isScalar :: "nat \<Rightarrow> bool" where
  "isScalar cp \<longleftrightarrow> cp < 0x110000 \<and> \<not> (0xD800 \<le> cp \<and> cp \<le> 0xDFFF)"

section \<open>The notes directory\<close>

text \<open>
  \<^verbatim>\<open>NOTES_DIR\<close> is one flat directory of regular files. A file carries its bytes and its
  modification time, the latter as the text \<^verbatim>\<open>stat.mtime.toISOString()\<close> renders. The
  store is the list of the entries of the directory, in no order that matters; \<open>None\<close> is
  the directory that does not exist. A file name is a string of the model above, and on
  disk it is its UTF-8 encoding, of at most \<open>NAME_MAX\<close> bytes: the file system refuses a
  longer one with \<open>ENAMETOOLONG\<close>. A missing directory or file is \<open>ENOENT\<close>. What the
  file system may refuse for other reasons (permissions, a full disk) is not part of the
  model.
\<close>

datatype error = TypeError | ENOENT | ENAMETOOLONG

record note_file =
  bytes :: "byte list"
  mtime :: string

type_synonym directory = "(string \<times> note_file) list"

type_synonym store = "directory option"

definition NAME_MAX :: nat where
  "NAME_MAX = 255"

definition fileNameBytes :: "string \<Rightarrow> nat" where
  "fileNameBytes name = length (utf8Encode (utf16 name))"

definition existsSyncDir :: "store \<Rightarrow> bool" where
  "existsSyncDir st \<longleftrightarrow> st \<noteq> None"

text \<open>\<^verbatim>\<open>fs.mkdirSync(NOTES_DIR, { recursive: true })\<close>: no error if the directory is there.\<close>

definition mkdirSync :: "store \<Rightarrow> store" where
  "mkdirSync st = (case st of None \<Rightarrow> Some [] | Some d \<Rightarrow> Some d)"

text \<open>The files of the store (none when the directory does not exist), and the file of a name.\<close>

definition directoryOf :: "store \<Rightarrow> directory" where
  "directoryOf st = (case st of None \<Rightarrow> [] | Some d \<Rightarrow> d)"

definition lookupFile :: "string \<Rightarrow> store \<Rightarrow> note_file option" where
  "lookupFile name st = map_of (directoryOf st) name"

definition existsSync :: "string \<Rightarrow> store \<Rightarrow> bool" where
  "existsSync name st \<longleftrightarrow> lookupFile name st \<noteq> None"

fun putFile :: "string \<Rightarrow> note_file \<Rightarrow> directory \<Rightarrow> directory" where
  "putFile name f [] = [(name, f)]"
| "putFile name f ((k, v) # d) = (if k = name then (name, f) # d else (k, v) # putFile name f d)"

text \<open>
  \<^verbatim>\<open>fs.writeFileSync(filepath, content, "utf-8")\<close> at the time \<open>clock\<close>: the text is
  encoded, and the file is created, or replaced as a whole, unless its name is too long.
\<close>

definition writeFileSync :: "string \<Rightarrow> js_text \<Rightarrow> string \<Rightarrow> store \<Rightarrow> (error + unit) \<times> store" where
  "writeFileSync name data clock st =
     (case st of
        None \<Rightarrow> (Inl ENOENT, st)
      | Some d \<Rightarrow>
          if NAME_MAX < fileNameBytes name then (Inl ENAMETOOLONG, st)
          else (Inr (), Some (putFile name \<lparr>bytes = utf8Encode data, mtime = clock\<rparr> d)))"

text \<open>\<^verbatim>\<open>fs.readFileSync(filepath, "utf-8")\<close>: the bytes of the file, decoded.\<close>

definition readFileSync :: "string \<Rightarrow> store \<Rightarrow> error + js_text" where
  "readFileSync name st =
     (case lookupFile name st of None \<Rightarrow> Inl ENOENT | Some f \<Rightarrow> Inr (utf8Decode (bytes f)))"

definition statSync :: "string \<Rightarrow> store \<Rightarrow> error + note_file" where
  "statSync name st = (case lookupFile name st of None \<Rightarrow> Inl ENOENT | Some f \<Rightarrow> Inr f)"

text \<open>
  \<^verbatim>\<open>fs.readdirSync(NOTES_DIR)\<close>: the names of the entries, which the runtime's directory
  scan sorts by their bytes. For the names of the model that is the order of their code
  units, a name coming before every one that it is a proper prefix of.
\<close>

definition readdirSync :: "store \<Rightarrow> error + string list" where
  "readdirSync st = (case st of None \<Rightarrow> Inl ENOENT | Some d \<Rightarrow> Inr (sort (map fst d)))"

text \<open>
  \<^verbatim>\<open>
  function ensureNotesDir() {
    if (!fs.existsSync(NOTES_DIR)) {
      fs.mkdirSync(NOTES_DIR, { recursive: true });
    }
  }
  \<close>
\<close>

definition ensureNotesDir :: "store \<Rightarrow> store" where
  "ensureNotesDir st = (if \<not> existsSyncDir st then mkdirSync st else st)"

section \<open>Tool handlers\<close>

text \<open>
  A handler returns the content item \<^verbatim>\<open>{ type: "text", text: ... }\<close>, or throws; it is
  modelled as a function from the store to the result (\<open>Inl\<close> the error thrown) and the
  store it leaves. The text of a content item is a JavaScript string; where the program
  builds it from file names and fixed words it is the \<open>utf16\<close> of a string of the model.
  An argument that reaches a handler is a string or some other value that a request can
  carry (\<^verbatim>\<open>undefined\<close> when the bundle lacks the field, a number, \<^verbatim>\<open>null\<close>, an array,
  an object): on a value that is not a string \<^verbatim>\<open>text.toLowerCase()\<close> throws a
  \<^verbatim>\<open>TypeError\<close>, and so does \<^verbatim>\<open>writeFileSync\<close>, before it opens the file. A title is a
  string of the model on which \<^const>\<open>slugify\<close> is defined; the text of a note is any
  sequence of code units.
\<close>

datatype 'a js_value = Str 'a | NonString

record payload =
  item_type :: string
  item_text :: js_text

definition textPayload :: "js_text \<Rightarrow> payload" where
  "textPayload t = \<lparr>item_type = ''text'', item_text = t\<rparr>"

text \<open>
  \<^verbatim>\<open>
  async function handleSaveNote(title, content) {
    ensureNotesDir();
    const filename = slugify(title) + ".md";
    const filepath = path.join(NOTES_DIR, filename);
    fs.writeFileSync(filepath, content, "utf-8");
    return { type: "text", text: `Note saved successfully: ${filename}` };
  }
  \<close>
\<close>

definition handleSaveNote ::
  "string \<Rightarrow> string js_value \<Rightarrow> js_text js_value \<Rightarrow> store \<Rightarrow> (error + payload) \<times> store" where
  "handleSaveNote clock title content st =
     (let st1 = ensureNotesDir st in
      case title of
        NonString \<Rightarrow> (Inl TypeError, st1)
      | Str t \<Rightarrow>
          (let filename = slugify t @ ''.md'' in
           case content of
             NonString \<Rightarrow> (Inl TypeError, st1)
           | Str c \<Rightarrow>
               (case writeFileSync filename c clock st1 of
                  (Inl e, st2) \<Rightarrow> (Inl e, st2)
                | (Inr u, st2) \<Rightarrow>
                    (Inr (textPayload (utf16 (''Note saved successfully: '' @ filename))), st2))))"

text \<open>\<^verbatim>\<open>file.endsWith(".md")\<close>.\<close>

definition endsWith :: "string \<Rightarrow> string \<Rightarrow> bool" where
  "endsWith s x \<longleftrightarrow> suffix x s"

text \<open>
  \<^verbatim>\<open>s.replace(pattern, r)\<close> with a string for pattern: the first occurrence of the
  pattern, if there is one, is replaced by \<open>r\<close>.
\<close>

fun replaceFirst :: "string \<Rightarrow> string \<Rightarrow> string \<Rightarrow> string" where
  "replaceFirst pat r [] = (if pat = [] then r else [])"
| "replaceFirst pat r (c # cs) =
     (if prefix pat (c # cs) then r @ drop (length pat) (c # cs)
      else c # replaceFirst pat r cs)"

text \<open>\<^verbatim>\<open>lines.join(sep)\<close>.\<close>

fun join :: "string \<Rightarrow> string list \<Rightarrow> string" where
  "join sep [] = []"
| "join sep [x] = x"
| "join sep (x # y # ys) = x @ sep @ join sep (y # ys)"

text \<open>\<^verbatim>\<open>xs.map(f)\<close> for a callback that may throw: the first throw ends the map.\<close>

fun mapThrowing :: "('a \<Rightarrow> error + 'b) \<Rightarrow> 'a list \<Rightarrow> error + 'b list" where
  "mapThrowing f [] = Inr []"
| "mapThrowing f (x # xs) =
     (case f x of
        Inl e \<Rightarrow> Inl e
      | Inr y \<Rightarrow> (case mapThrowing f xs of Inl e \<Rightarrow> Inl e | Inr ys \<Rightarrow> Inr (y # ys)))"

text \<open>
  The title shown for a file: \<^verbatim>\<open>file.replace(".md", "").replace(/-/g, " ")\<close>.
\<close>

definition displayTitle :: "string \<Rightarrow> string" where
  "displayTitle name = replaceEach isHyphen '' '' (replaceFirst ''.md'' '''' name)"

text \<open>
  The callback of the listing:
  \<^verbatim>\<open>
  (file) => {
    const filepath = path.join(NOTES_DIR, file);
    const stat = fs.statSync(filepath);
    const title = file.replace(".md", "").replace(/-/g, " ");
    const lastModified = stat.mtime.toISOString().split("T")[0];
    return `- **${title}** (${file}) - Modified: ${lastModified}`;
  }
  \<close>
\<close>

definition noteLine :: "store \<Rightarrow> string \<Rightarrow> error + string" where
  "noteLine st name =
     (case statSync name st of
        Inl e \<Rightarrow> Inl e
      | Inr stat \<Rightarrow>
          (let title = displayTitle name;
               lastModified = takeWhile (\<lambda>c. c \<noteq> CHR ''T'') (mtime stat)
           in Inr (''- **'' @ title @ ''** ('' @ name @ '') - Modified: '' @ lastModified)))"

text \<open>
  \<^verbatim>\<open>
  async function handleListNotes() {
    ensureNotesDir();
    const files = fs.readdirSync(NOTES_DIR).filter((file) => file.endsWith(".md"));
    if (files.length === 0) {
      return { type: "text", text: "No notes found in ~/dev-notes/" };
    }
    const notesList = files.map(...).join("\n");
    return { type: "text", text: `Available notes:\n\n${notesList}` };
  }
  \<close>
\<close>

definition noteFiles :: "string list \<Rightarrow> string list" where
  "noteFiles names = filter (\<lambda>name. endsWith name ''.md'') names"

definition handleListNotes :: "store \<Rightarrow> (error + payload) \<times> store" where
  "handleListNotes st =
     (let st1 = ensureNotesDir st in
      case readdirSync st1 of
        Inl e \<Rightarrow> (Inl e, st1)
      | Inr names \<Rightarrow>
          (let files = noteFiles names in
           if length files = 0
           then (Inr (textPayload (utf16 ''No notes found in ~/dev-notes/'')), st1)
           else
             (case mapThrowing (noteLine st1) files of
                Inl e \<Rightarrow> (Inl e, st1)
              | Inr lines \<Rightarrow>
                  (Inr (textPayload (utf16
                     (''Available notes:\<newline>\<newline>'' @ join ''\<newline>'' lines))), st1))))"

text \<open>
  \<^verbatim>\<open>
  async function handleReadNote(title) {
    ensureNotesDir();
    const filename = slugify(title) + ".md";
    const filepath = path.join(NOTES_DIR, filename);
    if (!fs.existsSync(filepath)) {
      return { type: "text", text: `Note not found: ${filename}` };
    }
    const content = fs.readFileSync(filepath, "utf-8");
    return { type: "text", text: content };
  }
  \<close>
\<close>

definition handleReadNote :: "string js_value \<Rightarrow> store \<Rightarrow> (error + payload) \<times> store" where
  "handleReadNote title st =
     (let st1 = ensureNotesDir st in
      case title of
        NonString \<Rightarrow> (Inl TypeError, st1)
      | Str t \<Rightarrow>
          (let filename = slugify t @ ''.md'' in
           if \<not> existsSync filename st1
           then (Inr (textPayload (utf16 (''Note not found: '' @ filename))), st1)
           else
             (case readFileSync filename st1 of
                Inl e \<Rightarrow> (Inl e, st1)
              | Inr c \<Rightarrow> (Inr (textPayload c), st1))))"

section \<open>Dispatcher\<close>

text \<open>
  The argument bundle holds the two fields that the program reads, \<^verbatim>\<open>args.title\<close> and
  \<^verbatim>\<open>args.content\<close>; a field it lacks reads as \<^verbatim>\<open>undefined\<close>, a value that is not a
  string. The bundle itself may be missing from the request (\<open>None\<close>), and then reading a
  field of it throws.
  \<^verbatim>\<open>
  async function processToolCall(name, args) {
    switch (name) {
      case "save_note":  return await handleSaveNote(args.title, args.content);
      case "list_notes": return await handleListNotes();
      case "read_note":  return await handleReadNote(args.title);
      default:           return { type: "text", text: `Unknown tool: ${name}` };
    }
  }
  \<close>
\<close>

record arguments =
  arg_title :: "string js_value"
  arg_content :: "js_text js_value"

definition processToolCall ::
  "string \<Rightarrow> string \<Rightarrow> arguments option \<Rightarrow> store \<Rightarrow> (error + payload) \<times> store" where
  "processToolCall clock name args st =
     (if name = ''save_note'' then
        (case args of
           None \<Rightarrow> (Inl TypeError, st)
         | Some a \<Rightarrow> handleSaveNote clock (arg_title a) (arg_content a) st)
      else if name = ''list_notes'' then handleListNotes st
      else if name = ''read_note'' then
        (case args of
           None \<Rightarrow> (Inl TypeError, st)
         | Some a \<Rightarrow> handleReadNote (arg_title a) st)
      else (Inr (textPayload (utf16 (''Unknown tool: '' @ name))), st))"

text \<open>
  The handler of a tool call wraps the result: \<^verbatim>\<open>return { content: [result] }\<close>.
\<close>

definition callTool ::
  "string \<Rightarrow> string \<Rightarrow> arguments option \<Rightarrow> store \<Rightarrow> (error + payload list) \<times> store" where
  "callTool clock name args st =
     (case processToolCall clock name args st of
        (Inl e, st') \<Rightarrow> (Inl e, st')
      | (Inr result, st') \<Rightarrow> (Inr [result], st'))"

subsection \<open>The title of a file as the specification words it\<close>

text \<open>
  The specification derives the title shown for a file by removing the \<^verbatim>\<open>.md\<close> extension
  and replacing hyphens with spaces. This is that title, for a name that ends in the
  extension; it is compared with \<^const>\<open>displayTitle\<close> below.
\<close>

definition referenceTitle :: "string \<Rightarrow> string" where
  "referenceTitle name =
     map (\<lambda>c. if c = CHR ''-'' then CHR '' '' else c) (take (length name - length ''.md'') name)"

subsection \<open>Runs of saves\<close>

text \<open>
  A run of calls of \<^const>\<open>handleSaveNote\<close>, each with its time, title and text, from the
  first to the last.
\<close>

fun saveNotes :: "(string \<times> string \<times> js_text) list \<Rightarrow> store \<Rightarrow> store" where
  "saveNotes [] st = st"
| "saveNotes ((clock, title, content) # ns) st =
     saveNotes ns (snd (handleSaveNote clock (Str title) (Str content) st))"

section \<open>Properties of the slug\<close>

lemma isHyphen_code: "isHyphen c \<longleftrightarrow> code c = 45"
proof -
  have "c = CHR ''-'' \<longleftrightarrow> (of_char c :: nat) = of_char CHR ''-''"
    by (simp only: of_char_eq_iff)
  then show ?thesis by (simp add: isHyphen_def code_def)
qed

lemma code_lowerChar:
  "code (lowerChar c) = (if isUpperCase c then code c + 32 else code c)"
  by (auto simp: lowerChar_def code_def isUpperCase_def)

lemma lowerChar_not_upper: "\<not> isUpperCase (lowerChar c)"
  unfolding isUpperCase_def[of "lowerChar c"] code_lowerChar
  by (auto simp: isUpperCase_def)

lemma lowerChar_fixed: "\<not> isUpperCase c \<Longrightarrow> lowerChar c = c"
  by (simp add: lowerChar_def)

lemma slugChar_not_space: "isSlugChar c \<Longrightarrow> \<not> isWhiteSpace c"
  by (auto simp: isSlugChar_def isWordChar_def isWhiteSpace_def isHyphen_code)

lemma slugChar_not_upper: "isSlugChar c \<Longrightarrow> \<not> isUpperCase c"
  by (auto simp: isSlugChar_def isUpperCase_def isHyphen_code)

lemma slugChar_plain: "isSlugChar c \<Longrightarrow> c \<noteq> CHR ''/'' \<and> c \<noteq> CHR 0x00"
  by (auto simp: isSlugChar_def isWordChar_def isHyphen_def code_def)

lemma replaceEach_empty: "replaceEach P [] s = filter (\<lambda>c. \<not> P c) s"
  by (induction s) auto

lemma set_replaceRuns: "set (replaceRuns P r s) \<subseteq> set r \<union> {c \<in> set s. \<not> P c}"
proof (induction P r s rule: replaceRuns.induct)
  case (1 P r)
  show ?case by simp
next
  case (2 P r c cs)
  show ?case
  proof (cases "P c")
    case True
    have "set (dropWhile P cs) \<subseteq> set cs" by (auto dest: set_dropWhileD)
    with True 2(1) show ?thesis by auto
  next
    case False
    with 2(2) show ?thesis by auto
  qed
qed

lemma set_trim: "set (trim s) \<subseteq> set s"
  by (auto simp: trim_def dest!: set_dropWhileD)

lemma replaceRuns_start:
  "s = [] \<or> \<not> P (hd s) \<Longrightarrow> replaceRuns P r s = [] \<or> \<not> P (hd (replaceRuns P r s))"
  by (cases s) auto

lemma replaceRuns_no_adjacent: "\<not> adjacentHyphens (replaceRuns isHyphen ''-'' s)"
proof (induction "isHyphen" "''-''" s rule: replaceRuns.induct)
  case 1
  show ?case by simp
next
  case (2 c cs)
  show ?case
  proof (cases "isHyphen c")
    case True
    let ?t = "dropWhile isHyphen cs"
    have ih: "\<not> adjacentHyphens (replaceRuns isHyphen ''-'' ?t)" using 2(1) True by simp
    have "?t = [] \<or> \<not> isHyphen (hd ?t)" by (metis hd_dropWhile)
    then have start: "replaceRuns isHyphen ''-'' ?t = [] \<or> \<not> isHyphen (hd (replaceRuns isHyphen ''-'' ?t))"
      by (rule replaceRuns_start)
    show ?thesis using True ih start
      by (cases "replaceRuns isHyphen ''-'' ?t") auto
  next
    case False
    with 2(2) show ?thesis
      by (cases "replaceRuns isHyphen ''-'' cs") auto
  qed
qed

lemma replaceRuns_none: "\<forall>c \<in> set s. \<not> P c \<Longrightarrow> replaceRuns P r s = s"
  by (induction s) auto

lemma replaceRuns_hyphen_fixed: "\<not> adjacentHyphens s \<Longrightarrow> replaceRuns isHyphen ''-'' s = s"
proof (induction s rule: adjacentHyphens.induct)
  case (1 a b cs)
  then show ?case by (auto simp: isHyphen_def)
next
  case 3
  show ?case by simp
next
  case (2 c)
  show ?case by (simp add: isHyphen_def)
qed

lemma trim_none: "\<forall>c \<in> set s. \<not> isWhiteSpace c \<Longrightarrow> trim s = s"
proof -
  assume a: "\<forall>c \<in> set s. \<not> isWhiteSpace c"
  have d: "dropWhile isWhiteSpace t = t" if "\<forall>c \<in> set t. \<not> isWhiteSpace c" for t
    using that by (cases t) auto
  show ?thesis using a by (simp add: trim_def d)
qed

lemma slugify_chars: "\<forall>c \<in> set (slugify x). isSlugChar c"
proof
  fix c assume c: "c \<in> set (slugify x)"
  let ?keep = "\<lambda>c. isWordChar c \<or> isWhiteSpace c \<or> isHyphen c"
  let ?Z = "trim (toLowerCase x)"
  let ?Y = "replaceEach (\<lambda>c. \<not> ?keep c) '''' ?Z"
  let ?X = "replaceRuns isWhiteSpace ''-'' ?Y"
  show "isSlugChar c"
  proof (cases "isHyphen c")
    case True
    then show ?thesis by (simp add: isSlugChar_def)
  next
    case False
    from c have "c \<in> set ''-'' \<union> {c \<in> set ?X. \<not> isHyphen c}"
      using set_replaceRuns[of isHyphen "''-''" ?X] by (auto simp: slugify_def)
    with False have cX: "c \<in> set ?X" by (auto simp: isHyphen_def)
    then have "c \<in> set ''-'' \<union> {c \<in> set ?Y. \<not> isWhiteSpace c}"
      using set_replaceRuns[of isWhiteSpace "''-''" ?Y] by blast
    with False have cY: "c \<in> set ?Y" and nws: "\<not> isWhiteSpace c" by (auto simp: isHyphen_def)
    from cY have keep: "?keep c" and cZ: "c \<in> set ?Z" by (auto simp: replaceEach_empty)
    from cZ have "c \<in> set (toLowerCase x)" using set_trim by blast
    then have "\<not> isUpperCase c" by (auto simp: toLowerCase_def lowerChar_not_upper)
    with keep nws False show ?thesis by (simp add: isSlugChar_def)
  qed
qed

lemma slugify_fixed:
  assumes "\<forall>c \<in> set s. isSlugChar c" and "\<not> adjacentHyphens s"
  shows "slugify s = s"
proof -
  have low: "toLowerCase s = s"
    using assms(1) by (simp add: toLowerCase_def map_idI lowerChar_fixed slugChar_not_upper)
  have tr: "trim s = s"
    using assms(1) by (simp add: trim_none slugChar_not_space)
  have rm: "replaceEach (\<lambda>c. \<not> (isWordChar c \<or> isWhiteSpace c \<or> isHyphen c)) '''' s = s"
    using assms(1) by (auto simp: replaceEach_empty isSlugChar_def intro!: filter_True)
  have ws: "replaceRuns isWhiteSpace ''-'' s = s"
    using assms(1) by (simp add: replaceRuns_none slugChar_not_space)
  show ?thesis
    by (simp only: slugify_def low tr rm ws replaceRuns_hyphen_fixed[OF assms(2)])
qed

lemma slugify_no_adjacent: "\<not> adjacentHyphens (slugify x)"
  by (simp add: slugify_def replaceRuns_no_adjacent)

lemma adjacentHyphens_iff: "adjacentHyphens s \<longleftrightarrow> (\<exists>ys zs. s = ys @ ''--'' @ zs)"
proof (induction s rule: adjacentHyphens.induct)
  case (1 a b cs)
  show ?case
  proof
    assume "adjacentHyphens (a # b # cs)"
    then consider "isHyphen a \<and> isHyphen b" | "adjacentHyphens (b # cs)" by auto
    then show "\<exists>ys zs. a # b # cs = ys @ ''--'' @ zs"
    proof cases
      case 1
      then have "a # b # cs = [] @ ''--'' @ cs" by (simp add: isHyphen_def)
      then show ?thesis by blast
    next
      case 2
      with 1 obtain ys zs where "b # cs = ys @ ''--'' @ zs" by auto
      then have "a # b # cs = (a # ys) @ ''--'' @ zs" by simp
      then show ?thesis by blast
    qed
  next
    assume "\<exists>ys zs. a # b # cs = ys @ ''--'' @ zs"
    then obtain ys zs where e: "a # b # cs = ys @ ''--'' @ zs" by auto
    show "adjacentHyphens (a # b # cs)"
    proof (cases ys)
      case Nil
      with e show ?thesis by (simp add: isHyphen_def)
    next
      case (Cons y ys')
      with e have "b # cs = ys' @ ''--'' @ zs" by simp
      then have "\<exists>ys zs. b # cs = ys @ ''--'' @ zs" by blast
      with 1 have "adjacentHyphens (b # cs)" by (simp only:)
      then show ?thesis by simp
    qed
  qed
next
  case 3
  show ?case by simp
next
  case (2 c)
  show ?case by (auto simp: append_eq_Cons_conv)
qed


subsection \<open>The five steps agree with the program\<close>

lemma lowerCased_eq: "lowerCased s = toLowerCase s"
  by (induction s) (simp_all add: toLowerCase_def)

lemma dropLeadingSpace_eq: "dropLeadingSpace s = dropWhile isWhiteSpace s"
  by (induction s) simp_all

lemma dropTrailingSpace_eq: "dropTrailingSpace s = rev (dropWhile isWhiteSpace (rev s))"
proof (induction s)
  case Nil
  show ?case by simp
next
  case (Cons c cs)
  have empty: "dropTrailingSpace cs = [] \<longleftrightarrow> (\<forall>x \<in> set (rev cs). isWhiteSpace x)"
    by (simp add: Cons.IH dropWhile_eq_Nil_conv)
  show ?case
  proof (cases "\<forall>x \<in> set (rev cs). isWhiteSpace x")
    case True
    then show ?thesis using empty by (simp add: dropWhile_append)
  next
    case False
    then show ?thesis using empty Cons.IH by (simp add: dropWhile_append)
  qed
qed

lemma removeForeign_eq:
  "removeForeign s = replaceEach (\<lambda>c. \<not> (isWordChar c \<or> isWhiteSpace c \<or> isHyphen c)) '''' s"
  by (induction s) (simp_all add: isHyphen_def)

lemma hyphenateSpaceRuns_eq: "hyphenateSpaceRuns s = replaceRuns isWhiteSpace ''-'' s"
  by (induction s rule: hyphenateSpaceRuns.induct) simp_all

lemma collapseHyphenRuns_eq: "collapseHyphenRuns s = replaceRuns isHyphen ''-'' s"
proof (induction s rule: collapseHyphenRuns.induct)
  case (1 a b cs)
  then show ?case by (auto simp: isHyphen_def)
next
  case 3
  show ?case by simp
next
  case (2 c)
  show ?case by (simp add: isHyphen_def)
qed

section \<open>The slug: idempotence, the reference pipeline, the shape of the output\<close>

text \<open>
  Claim C2. \<^verbatim>\<open>slugify\<close> is idempotent: for every string \<open>x\<close>, slugifying the slug of
  \<open>x\<close> gives the slug of \<open>x\<close> again.
\<close>

theorem slugify_idempotent: "slugify (slugify x) = slugify x"
  by (rule slugify_fixed[OF slugify_chars slugify_no_adjacent])

text \<open>
  Claim C3. For every string, \<^verbatim>\<open>slugify\<close> returns what the reference pipeline of the
  specification returns (lower-case, trim, remove what is neither word character, white
  space nor hyphen, one hyphen for each run of white space, one hyphen for each run of
  hyphens), and the slug of \<open>Project Ideas\<close> is \<open>project-ideas\<close>.
\<close>

theorem slugify_is_reference:
  "(\<forall>x. slugify x = referenceSlug x) \<and> slugify ''Project Ideas'' = ''project-ideas''"
proof
  show "\<forall>x. slugify x = referenceSlug x"
    by (simp only: slugify_def referenceSlug_def lowerCased_eq dropLeadingSpace_eq
          dropTrailingSpace_eq removeForeign_eq hyphenateSpaceRuns_eq collapseHyphenRuns_eq
          trim_def simp_thms)
  show "slugify ''Project Ideas'' = ''project-ideas''"
    by code_simp
qed

text \<open>
  Claim C9. For every string, the slug holds no white space, no upper-case letter,
  nothing but word characters and hyphens, and no two hyphens in a row; so the file name
  made of it holds neither a path separator nor a NUL.
\<close>

theorem slugify_output_shape:
  "(\<forall>c \<in> set (slugify x).
      \<not> isWhiteSpace c \<and> \<not> isUpperCase c \<and> (isWordChar c \<or> c = CHR ''-'')) \<and>
   \<not> (\<exists>ys zs. slugify x = ys @ ''--'' @ zs) \<and>
   CHR ''/'' \<notin> set (slugify x @ ''.md'') \<and> CHR 0x00 \<notin> set (slugify x @ ''.md'')"
proof (intro conjI)
  show "\<forall>c \<in> set (slugify x).
      \<not> isWhiteSpace c \<and> \<not> isUpperCase c \<and> (isWordChar c \<or> c = CHR ''-'')"
  proof
    fix c assume "c \<in> set (slugify x)"
    then have s: "isSlugChar c" using slugify_chars by blast
    then have "isWordChar c \<or> c = CHR ''-''" by (auto simp: isSlugChar_def isHyphen_def)
    with s show "\<not> isWhiteSpace c \<and> \<not> isUpperCase c \<and> (isWordChar c \<or> c = CHR ''-'')"
      by (simp add: slugChar_not_space slugChar_not_upper)
  qed
  show "\<not> (\<exists>ys zs. slugify x = ys @ ''--'' @ zs)"
    unfolding adjacentHyphens_iff[symmetric] by (rule slugify_no_adjacent)
  show "CHR ''/'' \<notin> set (slugify x @ ''.md'')"
    using slugify_chars[of x] slugChar_plain by auto
  show "CHR 0x00 \<notin> set (slugify x @ ''.md'')"
    using slugify_chars[of x] slugChar_plain by auto
qed

theorem slugify_output_shape_witness:
  "CHR ''p'' \<in> set (slugify ''Project - Ideas!'') \<and>
   \<not> isWhiteSpace CHR ''p'' \<and> \<not> isUpperCase CHR ''p'' \<and>
   (isWordChar CHR ''p'' \<or> CHR ''p'' = CHR ''-'') \<and>
   \<not> (\<exists>ys zs. slugify ''Project - Ideas!'' = ys @ ''--'' @ zs)"
proof -
  have m: "CHR ''p'' \<in> set (slugify ''Project - Ideas!'')"
    by code_simp
  from slugify_output_shape[of "''Project - Ideas!''"] m show ?thesis
    by blast
qed

section \<open>Properties of the UTF-8 encoding\<close>

text \<open>
  Decoding what was encoded gives the text back with every unpaired surrogate replaced by
  \<open>U+FFFD\<close>: each code point that the encoder reads is encoded in one to four bytes from
  which the decoder reads it again. A well-formed text comes back as it was.
\<close>

lemma split3:
  fixes cp :: nat
  obtains a b c where "a = cp div 0x1000" "b = cp div 0x40 mod 0x40" "c = cp mod 0x40"
    "cp = a * 0x1000 + b * 0x40 + c" "b < 0x40" "c < 0x40"
proof -
  let ?m = "cp div 0x40"
  have 1: "cp = ?m * 0x40 + cp mod 0x40" by simp
  have 2: "?m = (?m div 0x40) * 0x40 + ?m mod 0x40" by simp
  have 3: "?m div 0x40 = cp div 0x1000" by (simp add: div_mult2_eq[symmetric])
  have "cp = (cp div 0x1000) * 0x1000 + (?m mod 0x40) * 0x40 + cp mod 0x40"
    using 1 2 3 by linarith
  then show ?thesis using that[of "cp div 0x1000" "?m mod 0x40" "cp mod 0x40"] by simp
qed

lemma split4:
  fixes cp :: nat
  obtains a b c d where "a = cp div 0x40000" "b = cp div 0x1000 mod 0x40"
    "c = cp div 0x40 mod 0x40" "d = cp mod 0x40"
    "cp = a * 0x40000 + b * 0x1000 + c * 0x40 + d" "b < 0x40" "c < 0x40" "d < 0x40"
proof -
  let ?m = "cp div 0x40"
  let ?n = "cp div 0x1000"
  have 1: "cp = ?m * 0x40 + cp mod 0x40" by simp
  have 2: "?m = (?m div 0x40) * 0x40 + ?m mod 0x40" by simp
  have 3: "?m div 0x40 = ?n" by (simp add: div_mult2_eq[symmetric])
  have 4: "?n = (?n div 0x40) * 0x40 + ?n mod 0x40" by simp
  have 5: "?n div 0x40 = cp div 0x40000" by (simp add: div_mult2_eq[symmetric])
  have "cp = (cp div 0x40000) * 0x40000 + (?n mod 0x40) * 0x1000 + (?m mod 0x40) * 0x40 + cp mod 0x40"
    using 1 2 3 4 5 by linarith
  then show ?thesis
    using that[of "cp div 0x40000" "?n mod 0x40" "?m mod 0x40" "cp mod 0x40"] by simp
qed

lemma decode_encode_1:
  assumes "cp < 0x80"
  shows "decodePoints (encodeCodePoint cp @ bs) = cp # decodePoints bs"
  using assms by (simp add: encodeCodePoint_def)

lemma decode_encode_2:
  assumes "0x80 \<le> cp" "cp < 0x800"
  shows "decodePoints (encodeCodePoint cp @ bs) = cp # decodePoints bs"
proof -
  define q where "q = cp div 0x40"
  define r where "r = cp mod 0x40"
  have cp: "cp = q * 0x40 + r" by (simp add: q_def r_def)
  have r: "r < 0x40" by (simp add: r_def)
  have q: "2 \<le> q" "q < 0x20" using assms cp r by linarith+
  have enc: "encodeCodePoint cp = [0xC0 + q, 0x80 + r]"
    using assms by (simp add: encodeCodePoint_def q_def r_def)
  have dec: "decodePoints ([0xC0 + q, 0x80 + r] @ bs) = (q * 0x40 + r) # decodePoints bs"
    using q r by (simp add: isContinuation_def)
  show ?thesis unfolding enc dec cp[symmetric] ..
qed

lemma decode_encode_3:
  assumes "0x800 \<le> cp" "cp < 0x10000" "\<not> (0xD800 \<le> cp \<and> cp \<le> 0xDFFF)"
  shows "decodePoints (encodeCodePoint cp @ bs) = cp # decodePoints bs"
proof -
  obtain a b c where abc: "a = cp div 0x1000" "b = cp div 0x40 mod 0x40" "c = cp mod 0x40"
    and cp: "cp = a * 0x1000 + b * 0x40 + c" and b: "b < 0x40" and c: "c < 0x40"
    by (rule split3)
  have a: "a < 0x10" using assms(2) cp by linarith
  have lo: "a = 0 \<Longrightarrow> 0x20 \<le> b" using assms(1) cp c by linarith
  have hi: "a = 0xD \<Longrightarrow> b < 0x20" using assms(3) cp c b by linarith
  have enc: "encodeCodePoint cp = [0xE0 + a, 0x80 + b, 0x80 + c]"
    using assms by (simp add: encodeCodePoint_def abc)
  have ok: "secondByteOk (0xE0 + a) (0x80 + b)"
    using a b lo hi by (auto simp: secondByteOk_def)
  have dec: "decodePoints ([0xE0 + a, 0x80 + b, 0x80 + c] @ bs) =
      (a * 0x1000 + b * 0x40 + c) # decodePoints bs"
    using a b c ok by (simp add: isContinuation_def)
  show ?thesis unfolding enc dec cp[symmetric] ..
qed

lemma decode_encode_4:
  assumes "0x10000 \<le> cp" "cp < 0x110000"
  shows "decodePoints (encodeCodePoint cp @ bs) = cp # decodePoints bs"
proof -
  obtain a b c d where abcd: "a = cp div 0x40000" "b = cp div 0x1000 mod 0x40"
      "c = cp div 0x40 mod 0x40" "d = cp mod 0x40"
    and cp: "cp = a * 0x40000 + b * 0x1000 + c * 0x40 + d"
    and b: "b < 0x40" and c: "c < 0x40" and d: "d < 0x40"
    by (rule split4)
  have a: "a < 5" using assms(2) cp by linarith
  have lo: "a = 0 \<Longrightarrow> 0x10 \<le> b" using assms(1) cp c d by linarith
  have hi: "a = 4 \<Longrightarrow> b < 0x10" using assms(2) cp by linarith
  have enc: "encodeCodePoint cp = [0xF0 + a, 0x80 + b, 0x80 + c, 0x80 + d]"
    using assms by (simp add: encodeCodePoint_def abcd)
  have ok: "secondByteOk (0xF0 + a) (0x80 + b)"
    using a b lo hi by (auto simp: secondByteOk_def)
  have dec: "decodePoints ([0xF0 + a, 0x80 + b, 0x80 + c, 0x80 + d] @ bs) =
      (a * 0x40000 + b * 0x1000 + c * 0x40 + d) # decodePoints bs"
    using a b c d ok by (simp add: isContinuation_def)
  show ?thesis unfolding enc dec cp[symmetric] ..
qed

lemma decode_encode_point:
  assumes "isScalar cp"
  shows "decodePoints (encodeCodePoint cp @ bs) = cp # decodePoints bs"
proof -
  consider "cp < 0x80" | "0x80 \<le> cp" "cp < 0x800"
    | "0x800 \<le> cp" "cp < 0x10000" "\<not> (0xD800 \<le> cp \<and> cp \<le> 0xDFFF)"
    | "0x10000 \<le> cp" "cp < 0x110000"
    using assms unfolding isScalar_def by linarith
  then show ?thesis
    by cases (rule decode_encode_1 decode_encode_2 decode_encode_3 decode_encode_4; assumption)+
qed

lemma decode_encode_points:
  "\<forall>cp \<in> set cps. isScalar cp \<Longrightarrow> decodePoints (concat (map encodeCodePoint cps)) = cps"
  by (induction cps) (simp_all add: decode_encode_point del: decodePoints.simps(2))

lemma encodeCodePoint_bytes:
  assumes "isScalar cp" and "b \<in> set (encodeCodePoint cp)"
  shows "b < 256"
proof -
  have m: "x mod 0x40 < 0x40" for x :: nat by simp
  have d1: "cp div 0x40 < 0x20" if "cp < 0x800" using that by simp
  have d2: "cp div 0x1000 < 0x10" if "cp < 0x10000" using that by simp
  have d3: "cp div 0x40000 < 5" if "cp < 0x110000" using that by simp
  show ?thesis
    using assms m[of cp] m[of "cp div 0x40"] m[of "cp div 0x1000"] d1 d2 d3
    unfolding encodeCodePoint_def isScalar_def
    by (auto split: if_splits simp del: mod_less_divisor)
qed

lemma unat_code_unit: "unat (u :: code_unit) < 0x10000"
  using unsigned_less[of u, where 'a=nat] by simp

lemma pair_point:
  assumes "isHighSurrogate u" "isLowSurrogate v"
  obtains h l where "unat u = 0xD800 + h" "unat v = 0xDC00 + l" "h < 0x400" "l < 0x400"
    "0x10000 + (unat u - 0xD800) * 0x400 + (unat v - 0xDC00) = 0x10000 + (h * 0x400 + l)"
proof -
  from assms have "unat u = 0xD800 + (unat u - 0xD800)" "unat v = 0xDC00 + (unat v - 0xDC00)"
    "unat u - 0xD800 < 0x400" "unat v - 0xDC00 < 0x400"
    by (auto simp: isHighSurrogate_def isLowSurrogate_def)
  then show ?thesis using that[of "unat u - 0xD800" "unat v - 0xDC00"] by simp
qed

lemma codePoints_scalar: "cp \<in> set (codePoints t) \<Longrightarrow> isScalar cp"
proof (induction t arbitrary: cp rule: codePoints.induct)
  case (1 u v us)
  show ?case
  proof (cases "isHighSurrogate u \<and> isLowSurrogate v")
    case True
    then obtain h l where hl: "h < 0x400" "l < 0x400"
      "0x10000 + (unat u - 0xD800) * 0x400 + (unat v - 0xDC00) = 0x10000 + (h * 0x400 + l)"
      using pair_point[of u v] by metis
    have "isScalar (0x10000 + (h * 0x400 + l))"
      using hl(1,2) unfolding isScalar_def by linarith
    then have "isScalar (0x10000 + (unat u - 0xD800) * 0x400 + (unat v - 0xDC00))"
      by (simp only: hl(3))
    moreover from True have "codePoints (u # v # us) =
        (0x10000 + (unat u - 0xD800) * 0x400 + (unat v - 0xDC00)) # codePoints us" by simp
    ultimately show ?thesis using 1(1)[OF True] 1(3) by auto
  next
    case False
    have "isScalar (if isSurrogate u then 0xFFFD else unat u)"
      using unat_code_unit[of u]
      by (auto simp: isScalar_def isSurrogate_def isHighSurrogate_def isLowSurrogate_def)
    moreover from False have "codePoints (u # v # us) =
        (if isSurrogate u then 0xFFFD else unat u) # codePoints (v # us)"
      by (simp only: codePoints.simps if_False)
    ultimately show ?thesis using 1(2)[OF False] 1(3) by auto
  qed
next
  case (2 u)
  have "isScalar (if isSurrogate u then 0xFFFD else unat u)"
    using unat_code_unit[of u]
    by (auto simp: isScalar_def isSurrogate_def isHighSurrogate_def isLowSurrogate_def)
  with 2 show ?case by auto
next
  case 3
  then show ?case by simp
qed

lemma codeUnits_pair:
  assumes "isHighSurrogate u" "isLowSurrogate v"
  shows "codeUnits (0x10000 + (unat u - 0xD800) * 0x400 + (unat v - 0xDC00)) = [u, v]"
proof -
  obtain h l where hl: "unat u = 0xD800 + h" "unat v = 0xDC00 + l" "h < 0x400" "l < 0x400"
    "0x10000 + (unat u - 0xD800) * 0x400 + (unat v - 0xDC00) = 0x10000 + (h * 0x400 + l)"
    using pair_point[OF assms] by metis
  have d: "(h * 0x400 + l) div 0x400 = h" and m: "(h * 0x400 + l) mod 0x400 = l"
    using hl(4) by simp_all
  have "codeUnits (0x10000 + (h * 0x400 + l)) = [of_nat (0xD800 + h), of_nat (0xDC00 + l)]"
    using hl(4) by (simp add: codeUnits_def del: of_nat_add)
  also have "\<dots> = [u, v]" by (simp only: hl(1,2)[symmetric]) simp
  finally show ?thesis by (simp only: hl(5))
qed

lemma codeUnits_single:
  "codeUnits (if isSurrogate u then 0xFFFD else unat u) = [if isSurrogate u then 0xFFFD else u]"
  using unat_code_unit[of u] by (simp add: codeUnits_def)

lemma codeUnits_codePoints: "concat (map codeUnits (codePoints t)) = toWellFormed t"
proof (induction t rule: toWellFormed.induct)
  case (1 u v us)
  show ?case
  proof (cases "isHighSurrogate u \<and> isLowSurrogate v")
    case True
    then have "codePoints (u # v # us) =
        (0x10000 + (unat u - 0xD800) * 0x400 + (unat v - 0xDC00)) # codePoints us"
      and "toWellFormed (u # v # us) = u # v # toWellFormed us" by simp_all
    with True 1(1) show ?thesis by (simp add: codeUnits_pair)
  next
    case False
    then have "codePoints (u # v # us) =
        (if isSurrogate u then 0xFFFD else unat u) # codePoints (v # us)"
      and "toWellFormed (u # v # us) =
        (if isSurrogate u then 0xFFFD else u) # toWellFormed (v # us)"
      by (simp_all only: codePoints.simps toWellFormed.simps if_False)
    with 1(2)[OF False] show ?thesis by (simp only: list.map concat.simps codeUnits_single) simp
  qed
next
  case (2 u)
  show ?case by (simp add: codeUnits_single)
next
  case 3
  show ?case by simp
qed

lemma unat_of_nat_bytes:
  "\<forall>b \<in> set bs. b < 256 \<Longrightarrow> map unat (map of_nat bs :: byte list) = bs"
  by (induction bs) (simp_all add: unat_of_nat)

lemma utf8Decode_utf8Encode: "utf8Decode (utf8Encode t) = toWellFormed t"
proof -
  let ?bs = "concat (map encodeCodePoint (codePoints t))"
  have "\<forall>b \<in> set ?bs. b < 256"
    using codePoints_scalar encodeCodePoint_bytes by auto
  then have "map unat (utf8Encode t) = ?bs"
    unfolding utf8Encode_def by (rule unat_of_nat_bytes)
  moreover have "decodePoints ?bs = codePoints t"
    using codePoints_scalar by (intro decode_encode_points) blast
  ultimately show ?thesis
    by (simp add: utf8Decode_def codeUnits_codePoints)
qed

lemma toWellFormed_fixed: "isWellFormed t \<Longrightarrow> toWellFormed t = t"
  by (induction t rule: isWellFormed.induct) (auto split: if_splits)

lemma utf8_round_trip: "isWellFormed t \<Longrightarrow> utf8Decode (utf8Encode t) = t"
  by (simp add: utf8Decode_utf8Encode toWellFormed_fixed)

subsection \<open>Texts and file names of the model's strings\<close>

lemma unat_of_char: "unat (of_char c :: code_unit) = of_char c"
proof -
  have lt: "(of_char c :: nat) < 65536" using nat_of_char_less_256[of c] by linarith
  have "unat (of_nat (of_char c) :: code_unit) = of_char c"
    using lt by (simp add: unat_of_nat)
  then show ?thesis by (simp only: of_nat_of_char)
qed

lemma of_char_no_surrogate: "\<not> isSurrogate (of_char c)"
proof -
  have "(of_char c :: nat) < 256" by simp
  then show ?thesis
    unfolding isSurrogate_def isHighSurrogate_def isLowSurrogate_def unat_of_char
    by linarith
qed

lemma utf16_wellFormed: "isWellFormed (utf16 s)"
proof (induction s rule: induct_list012)
  case 1
  show ?case by (simp add: utf16_def)
next
  case (2 c)
  show ?case by (simp add: utf16_def of_char_no_surrogate)
next
  case (3 c d cs)
  have "\<not> isHighSurrogate (of_char c)" using of_char_no_surrogate[of c] by (simp add: isSurrogate_def)
  with 3 show ?case by (simp add: utf16_def of_char_no_surrogate)
qed

lemma codePoints_utf16: "codePoints (utf16 s) = map of_char s"
proof (induction s rule: induct_list012)
  case 1
  show ?case by (simp add: utf16_def)
next
  case (2 c)
  show ?case by (simp add: utf16_def of_char_no_surrogate unat_of_char)
next
  case (3 c d cs)
  have "\<not> isHighSurrogate (of_char c)" using of_char_no_surrogate[of c] by (simp add: isSurrogate_def)
  with 3 show ?case by (simp add: utf16_def of_char_no_surrogate unat_of_char)
qed

lemma utf16_inject: "utf16 s = utf16 t \<longleftrightarrow> s = t"
proof
  assume "utf16 s = utf16 t"
  then have "map unat (utf16 s) = map unat (utf16 t)" by simp
  then have "map (of_char :: char \<Rightarrow> nat) s = map of_char t"
    by (simp add: utf16_def unat_of_char comp_def)
  then show "s = t" by (simp add: inj_map_eq_map inj_of_char)
qed simp

lemma fileNameBytes_ascii:
  assumes "\<forall>c \<in> set s. code c < 128"
  shows "fileNameBytes s = length s"
proof -
  have "concat (map encodeCodePoint (map of_char s)) = map of_char s"
    using assms by (induction s) (simp_all add: encodeCodePoint_def code_def)
  then show ?thesis by (simp add: fileNameBytes_def utf8Encode_def codePoints_utf16)
qed

lemma slugChar_ascii: "isSlugChar c \<Longrightarrow> code c < 128"
  by (auto simp: isSlugChar_def isWordChar_def isHyphen_code)

lemma fileNameBytes_slug: "fileNameBytes (slugify T @ ''.md'') = length (slugify T) + 3"
proof -
  have "\<forall>c \<in> set (slugify T @ ''.md''). code c < 128"
    using slugify_chars[of T] slugChar_ascii by (auto simp: code_def)
  then show ?thesis by (simp add: fileNameBytes_ascii)
qed

lemma no_hyphen_no_adjacent: "\<forall>c \<in> set s. \<not> isHyphen c \<Longrightarrow> \<not> adjacentHyphens s"
  by (induction s rule: adjacentHyphens.induct) simp_all

lemma slugify_replicate_a: "slugify (replicate n CHR ''a'') = replicate n CHR ''a''"
proof -
  have a: "isSlugChar CHR ''a''" "\<not> isHyphen CHR ''a''"
    by (simp_all add: isSlugChar_def isWordChar_def isUpperCase_def isHyphen_def code_def)
  show ?thesis
    by (rule slugify_fixed) (auto simp: a intro!: no_hyphen_no_adjacent)
qed

lemma toWellFormed_example: "toWellFormed [0x61, 0xD800, 0x62] = [0x61, 0xFFFD, 0x62]"
  by (simp add: isSurrogate_def isHighSurrogate_def isLowSurrogate_def)

section \<open>Properties of the store and the handlers\<close>

lemma ensureNotesDir_eq: "ensureNotesDir st = Some (directoryOf st)"
  by (cases st) (simp_all add: ensureNotesDir_def existsSyncDir_def mkdirSync_def directoryOf_def)

lemma map_of_putFile: "map_of (putFile name f d) = (map_of d)(name \<mapsto> f)"
  by (induction d) (auto simp: fun_eq_iff)

lemma names_putFile:
  "map fst (putFile name f d) = (if name \<in> set (map fst d) then map fst d else map fst d @ [name])"
  by (induction d) force+

lemma handleSaveNote_Str:
  "fileNameBytes (slugify T @ ''.md'') \<le> NAME_MAX \<Longrightarrow>
   handleSaveNote clock (Str T) (Str C) st =
     (Inr (textPayload (utf16 (''Note saved successfully: '' @ slugify T @ ''.md''))),
      Some (putFile (slugify T @ ''.md'') \<lparr>bytes = utf8Encode C, mtime = clock\<rparr> (directoryOf st)))"
  by (simp add: handleSaveNote_def ensureNotesDir_eq writeFileSync_def Let_def)

lemma handleSaveNote_long:
  "NAME_MAX < fileNameBytes (slugify T @ ''.md'') \<Longrightarrow>
   handleSaveNote clock (Str T) (Str C) st = (Inl ENAMETOOLONG, Some (directoryOf st))"
  by (simp add: handleSaveNote_def ensureNotesDir_eq writeFileSync_def Let_def)

lemma handleReadNote_Str:
  "handleReadNote (Str T) st =
     ((case lookupFile (slugify T @ ''.md'') st of
         None \<Rightarrow> Inr (textPayload (utf16 (''Note not found: '' @ slugify T @ ''.md'')))
       | Some f \<Rightarrow> Inr (textPayload (utf8Decode (bytes f)))),
      Some (directoryOf st))"
  by (simp add: handleReadNote_def ensureNotesDir_eq existsSync_def readFileSync_def
        lookupFile_def directoryOf_def Let_def split: option.split)

lemma lookupFile_saved:
  "lookupFile name (Some (putFile name f d)) = Some f"
  by (simp add: lookupFile_def directoryOf_def map_of_putFile)

lemma noteLine_success:
  "name \<in> set (map fst d) \<Longrightarrow> \<exists>line. noteLine (Some d) name = Inr line"
proof -
  assume "name \<in> set (map fst d)"
  then have "map_of d name \<noteq> None" by (simp add: map_of_eq_None_iff)
  then show ?thesis
    by (auto simp: noteLine_def statSync_def lookupFile_def directoryOf_def Let_def)
qed

lemma mapThrowing_succeeds:
  "\<forall>x \<in> set xs. \<exists>y. f x = Inr y \<Longrightarrow> \<exists>ys. mapThrowing f xs = Inr ys"
proof (induction xs)
  case Nil
  show ?case by simp
next
  case (Cons x xs)
  then obtain y ys where "f x = Inr y" "mapThrowing f xs = Inr ys" by auto
  then show ?case by simp
qed

lemma mapThrowing_Inr:
  "mapThrowing f xs = Inr ys \<Longrightarrow> list_all2 (\<lambda>x y. f x = Inr y) xs ys"
proof (induction xs arbitrary: ys)
  case Nil
  then show ?case by simp
next
  case (Cons x xs)
  then show ?case by (auto split: sum.splits)
qed

lemma noteLine_directoryOf: "noteLine (Some (directoryOf st)) name = noteLine st name"
  by (simp add: noteLine_def statSync_def lookupFile_def directoryOf_def)

lemma handleListNotes_state: "snd (handleListNotes st) = Some (directoryOf st)"
  by (simp add: handleListNotes_def ensureNotesDir_eq readdirSync_def Let_def split: sum.split)

lemma handleReadNote_state: "snd (handleReadNote title st) = Some (directoryOf st)"
  by (simp add: handleReadNote_def ensureNotesDir_eq Let_def split: js_value.split sum.split)

lemma noteFiles_sort: "noteFiles (sort names) = sort (noteFiles names)"
  by (simp add: noteFiles_def filter_sort)

lemma handleListNotes_none:
  "noteFiles (map fst (directoryOf st)) = [] \<Longrightarrow>
     fst (handleListNotes st) = Inr (textPayload (utf16 ''No notes found in ~/dev-notes/''))"
  by (simp add: handleListNotes_def ensureNotesDir_eq readdirSync_def Let_def noteFiles_sort)

lemma handleListNotes_some:
  assumes "noteFiles (map fst (directoryOf st)) \<noteq> []"
  shows "\<exists>lines. fst (handleListNotes st) =
           Inr (textPayload (utf16 (''Available notes:\<newline>\<newline>'' @ join ''\<newline>'' lines))) \<and>
         list_all2 (\<lambda>name line. noteLine st name = Inr line)
           (sort (noteFiles (map fst (directoryOf st)))) lines"
proof -
  let ?d = "directoryOf st"
  let ?files = "sort (noteFiles (map fst ?d))"
  have "set ?files \<subseteq> set (map fst ?d)" by (auto simp: noteFiles_def)
  then have "\<forall>name \<in> set ?files. \<exists>line. noteLine (Some ?d) name = Inr line"
    using noteLine_success by blast
  from mapThrowing_succeeds[OF this] obtain lines where
    ls: "mapThrowing (noteLine (Some ?d)) ?files = Inr lines" by blast
  have ne: "?files \<noteq> []" using assms by (metis set_sort set_empty)
  have res: "fst (handleListNotes st) =
      Inr (textPayload (utf16 (''Available notes:\<newline>\<newline>'' @ join ''\<newline>'' lines)))"
    using ne by (simp add: handleListNotes_def ensureNotesDir_eq readdirSync_def Let_def
        noteFiles_sort ls)
  have "list_all2 (\<lambda>name line. noteLine st name = Inr line) ?files lines"
    using mapThrowing_Inr[OF ls] by (simp only: noteLine_directoryOf)
  with res show ?thesis by (intro exI conjI)
qed

subsection \<open>The listing after a run of saves\<close>

text \<open>
  A slug holds no dot, so for the files that \<^const>\<open>handleSaveNote\<close> writes the title shown
  is the one of the specification; and after notes with pairwise distinct slugs are saved
  into an empty directory, the listing has one line for each of them, in the order of
  their file names.
\<close>

lemma replaceEach_hyphen_space:
  "replaceEach isHyphen '' '' s = map (\<lambda>c. if c = CHR ''-'' then CHR '' '' else c) s"
  by (induction s) (simp_all add: isHyphen_def)

lemma replaceFirst_extension:
  "CHR ''.'' \<notin> set stem \<Longrightarrow> replaceFirst ''.md'' '''' (stem @ ''.md'') = stem"
  by (induction stem) auto

lemma displayTitle_plain:
  "CHR ''.'' \<notin> set stem \<Longrightarrow> displayTitle (stem @ ''.md'') = referenceTitle (stem @ ''.md'')"
  by (simp add: displayTitle_def referenceTitle_def replaceFirst_extension replaceEach_hyphen_space)

lemma slug_no_dot: "CHR ''.'' \<notin> set (slugify T)"
proof
  assume "CHR ''.'' \<in> set (slugify T)"
  then have "isSlugChar CHR ''.''" using slugify_chars by blast
  then show False by (simp add: isSlugChar_def isWordChar_def isHyphen_def code_def)
qed

lemma displayTitle_slug:
  "displayTitle (slugify T @ ''.md'') = referenceTitle (slugify T @ ''.md'')"
  by (rule displayTitle_plain[OF slug_no_dot])

lemma noteLine_slug:
  "lookupFile (slugify T @ ''.md'') st = Some f \<Longrightarrow>
     noteLine st (slugify T @ ''.md'') =
       Inr (''- **'' @ referenceTitle (slugify T @ ''.md'') @ ''** ('' @ slugify T @ ''.md'' @
            '') - Modified: '' @ takeWhile (\<lambda>c. c \<noteq> CHR ''T'') (mtime f))"
  by (simp add: noteLine_def statSync_def Let_def displayTitle_slug)

lemma noteFiles_slugs:
  "noteFiles (map (\<lambda>(clock, title, c). slugify title @ ''.md'') ns) =
     map (\<lambda>(clock, title, c). slugify title @ ''.md'') ns"
  by (induction ns) (auto simp: noteFiles_def endsWith_def suffix_def)

lemma names_saveNotes:
  assumes "distinct (map fst (directoryOf st) @ map (\<lambda>(clock, title, c). slugify title @ ''.md'') ns)"
    and "\<forall>(clock, title, c) \<in> set ns. fileNameBytes (slugify title @ ''.md'') \<le> NAME_MAX"
  shows "map fst (directoryOf (saveNotes ns st)) =
     map fst (directoryOf st) @ map (\<lambda>(clock, title, c). slugify title @ ''.md'') ns"
  using assms
proof (induction ns arbitrary: st)
  case Nil
  show ?case by simp
next
  case (Cons n ns)
  obtain clock title c where n: "n = (clock, title, c)" by (cases n) auto
  let ?name = "slugify title @ ''.md''"
  let ?st' = "snd (handleSaveNote clock (Str title) (Str c) st)"
  from Cons.prems(1) n have fresh: "?name \<notin> set (map fst (directoryOf st))" by auto
  from Cons.prems(2) n have fit: "fileNameBytes ?name \<le> NAME_MAX" by simp
  have "directoryOf ?st' = putFile ?name \<lparr>bytes = utf8Encode c, mtime = clock\<rparr> (directoryOf st)"
    by (simp add: handleSaveNote_Str[OF fit] directoryOf_def)
  with fresh have names: "map fst (directoryOf ?st') = map fst (directoryOf st) @ [?name]"
    by (simp only: names_putFile if_False)
  have "distinct (map fst (directoryOf ?st') @ map (\<lambda>(clock, title, c). slugify title @ ''.md'') ns)"
    using Cons.prems(1) n by (simp add: names)
  moreover have "\<forall>(clock, title, c) \<in> set ns. fileNameBytes (slugify title @ ''.md'') \<le> NAME_MAX"
    using Cons.prems(2) by simp
  ultimately show ?case
    using Cons.IH[of ?st'] by (simp add: n names)
qed

lemma listing_after_saves:
  assumes "directoryOf st = []"
    and "distinct (map (\<lambda>(clock, title, c). slugify title) ns)" and "ns \<noteq> []"
    and "\<forall>(clock, title, c) \<in> set ns. fileNameBytes (slugify title @ ''.md'') \<le> NAME_MAX"
  shows "\<exists>lines. fst (handleListNotes (saveNotes ns st)) =
           Inr (textPayload (utf16 (''Available notes:\<newline>\<newline>'' @ join ''\<newline>'' lines))) \<and>
         length lines = length ns \<and>
         list_all2 (\<lambda>name line. noteLine (saveNotes ns st) name = Inr line)
           (sort (map (\<lambda>(clock, title, c). slugify title @ ''.md'') ns)) lines"
proof -
  let ?names = "map (\<lambda>(clock, title, c). slugify title @ ''.md'') ns"
  have "?names = map (\<lambda>s. s @ ''.md'') (map (\<lambda>(clock, title, c). slugify title) ns)"
    by (simp add: case_prod_unfold)
  moreover have "inj (\<lambda>s :: string. s @ ''.md'')" by (simp add: inj_on_def)
  ultimately have "distinct ?names"
    using assms(2) by (simp only: distinct_map) (auto intro: inj_on_subset)
  then have names: "map fst (directoryOf (saveNotes ns st)) = ?names"
    using names_saveNotes[of st ns] assms(1,4) by simp
  then have files: "noteFiles (map fst (directoryOf (saveNotes ns st))) = ?names"
    by (simp only: noteFiles_slugs)
  with assms(3) have "noteFiles (map fst (directoryOf (saveNotes ns st))) \<noteq> []" by simp
  from handleListNotes_some[OF this] obtain lines where
    r: "fst (handleListNotes (saveNotes ns st)) =
           Inr (textPayload (utf16 (''Available notes:\<newline>\<newline>'' @ join ''\<newline>'' lines)))"
    and l: "list_all2 (\<lambda>name line. noteLine (saveNotes ns st) name = Inr line) (sort ?names) lines"
    unfolding files by blast
  from l have "length lines = length ns" using list_all2_lengthD[OF l] by simp
  with r l show ?thesis by (intro exI conjI)
qed

section \<open>Saving, reading and listing notes\<close>

text \<open>
  Claim C1, as amended. For every title \<open>T\<close> whose file name \<^verbatim>\<open>slugify(T) + ".md"\<close> is of
  at most \<open>NAME_MAX\<close> bytes, every text \<open>C\<close> and every store, \<^verbatim>\<open>save_note(T, C)\<close>
  succeeds and \<^verbatim>\<open>read_note(T)\<close> right after it returns \<open>C\<close> with each unpaired
  surrogate replaced by \<open>U+FFFD\<close>, which is exactly \<open>C\<close> when \<open>C\<close> is well formed,
  whatever was saved under \<open>T\<close> before; so saving \<open>C1\<close>, then \<open>C2\<close>, then reading
  returns \<open>C2\<close> in the same sense.
\<close>

theorem read_after_save:
  assumes "fileNameBytes (slugify T @ ''.md'') \<le> NAME_MAX"
  shows "fst (handleSaveNote clock (Str T) (Str C) st) =
           Inr (textPayload (utf16 (''Note saved successfully: '' @ slugify T @ ''.md''))) \<and>
         fst (handleReadNote (Str T) (snd (handleSaveNote clock (Str T) (Str C) st))) =
           Inr (textPayload (toWellFormed C)) \<and>
         (isWellFormed C \<longrightarrow>
            fst (handleReadNote (Str T) (snd (handleSaveNote clock (Str T) (Str C) st))) =
              Inr (textPayload C)) \<and>
         fst (handleReadNote (Str T)
           (snd (handleSaveNote clock2 (Str T) (Str C2)
             (snd (handleSaveNote clock1 (Str T) (Str C1) st))))) =
           Inr (textPayload (toWellFormed C2)) \<and>
         (isWellFormed C2 \<longrightarrow>
            fst (handleReadNote (Str T)
              (snd (handleSaveNote clock2 (Str T) (Str C2)
                (snd (handleSaveNote clock1 (Str T) (Str C1) st))))) = Inr (textPayload C2))"
  by (simp add: handleSaveNote_Str[OF assms] handleReadNote_Str lookupFile_saved
      utf8Decode_utf8Encode toWellFormed_fixed)

theorem read_after_save_witness:
  "fileNameBytes (slugify ''Project Ideas'' @ ''.md'') \<le> NAME_MAX \<and>
   isWellFormed (utf16 ''# Ideas\<newline>- thing one'') \<and>
   fst (handleReadNote (Str ''Project Ideas'')
     (snd (handleSaveNote ''2024-05-06T07:08:09.000Z'' (Str ''Project Ideas'')
       (Str (utf16 ''# Ideas\<newline>- thing one'')) None))) =
     Inr (textPayload (utf16 ''# Ideas\<newline>- thing one'')) \<and>
   isWellFormed [0x61, 0xD83D, 0xDE00] \<and>
   fst (handleReadNote (Str ''Project Ideas'')
     (snd (handleSaveNote ''2024-05-07T07:08:09.000Z'' (Str ''Project Ideas'')
       (Str [0x61, 0xD83D, 0xDE00])
       (snd (handleSaveNote ''2024-05-06T07:08:09.000Z'' (Str ''Project Ideas'')
         (Str (utf16 ''# Ideas\<newline>- thing one'')) None))))) =
     Inr (textPayload [0x61, 0xD83D, 0xDE00])"
proof -
  have s: "slugify ''Project Ideas'' = ''project-ideas''" by code_simp
  have fit: "fileNameBytes (slugify ''Project Ideas'' @ ''.md'') \<le> NAME_MAX"
    by (simp only: fileNameBytes_slug) (simp add: s NAME_MAX_def)
  have w1: "isWellFormed (utf16 ''# Ideas\<newline>- thing one'')" by (rule utf16_wellFormed)
  have w2: "isWellFormed [0x61, 0xD83D, 0xDE00]"
    by (simp add: isSurrogate_def isHighSurrogate_def isLowSurrogate_def)
  from read_after_save[OF fit, of "''2024-05-06T07:08:09.000Z''" "utf16 ''# Ideas\<newline>- thing one''" None
      "''2024-05-07T07:08:09.000Z''" "[0x61, 0xD83D, 0xDE00]" "''2024-05-06T07:08:09.000Z''"
      "utf16 ''# Ideas\<newline>- thing one''"] fit w1 w2
  show ?thesis by blast
qed

text \<open>
  The round trip does not hold for every text and every title, as C1 was first stated.
  The text \<^verbatim>\<open>a\ud800b\<close>, with its unpaired surrogate, is written as the bytes of
  \<^verbatim>\<open>a\ufffdb\<close> and read back so; and for a title of 253 letters the file name has 256
  bytes, the save throws \<open>ENAMETOOLONG\<close> and the read finds no note.
\<close>

theorem read_after_save_counterexample:
  "fst (handleReadNote (Str ''a'')
     (snd (handleSaveNote ''2024-05-06T07:08:09.000Z'' (Str ''a'') (Str [0x61, 0xD800, 0x62]) None))) =
     Inr (textPayload [0x61, 0xFFFD, 0x62]) \<and>
   fst (handleReadNote (Str ''a'')
     (snd (handleSaveNote ''2024-05-06T07:08:09.000Z'' (Str ''a'') (Str [0x61, 0xD800, 0x62]) None))) \<noteq>
     Inr (textPayload [0x61, 0xD800, 0x62]) \<and>
   fst (handleSaveNote ''2024-05-06T07:08:09.000Z'' (Str (replicate 253 CHR ''a''))
     (Str (utf16 ''x'')) None) = Inl ENAMETOOLONG \<and>
   fst (handleReadNote (Str (replicate 253 CHR ''a''))
     (snd (handleSaveNote ''2024-05-06T07:08:09.000Z'' (Str (replicate 253 CHR ''a''))
       (Str (utf16 ''x'')) None))) \<noteq> Inr (textPayload (utf16 ''x''))"
proof -
  let ?clock = "''2024-05-06T07:08:09.000Z''"
  let ?long = "replicate 253 CHR ''a''"
  have s0: "slugify ''a'' = ''a''" by code_simp
  have fit: "fileNameBytes (slugify ''a'' @ ''.md'') \<le> NAME_MAX"
    by (simp only: fileNameBytes_slug) (simp add: s0 NAME_MAX_def)
  have dec: "utf8Decode (utf8Encode [0x61, 0xD800, 0x62]) = [0x61, 0xFFFD, 0x62]"
    by (simp only: utf8Decode_utf8Encode toWellFormed_example)
  have r: "fst (handleReadNote (Str ''a'')
      (snd (handleSaveNote ?clock (Str ''a'') (Str [0x61, 0xD800, 0x62]) None))) =
      Inr (textPayload [0x61, 0xFFFD, 0x62])"
    by (simp add: handleSaveNote_Str[OF fit] handleReadNote_Str s0 lookupFile_saved dec)
  have ne: "Inr (textPayload [0x61, 0xFFFD, 0x62]) \<noteq>
      (Inr (textPayload [0x61, 0xD800, 0x62]) :: error + payload)"
    by (simp add: textPayload_def)
  have long: "NAME_MAX < fileNameBytes (slugify ?long @ ''.md'')"
    by (simp only: fileNameBytes_slug) (simp add: slugify_replicate_a NAME_MAX_def)
  have s: "handleSaveNote ?clock (Str ?long) (Str (utf16 ''x'')) None = (Inl ENAMETOOLONG, Some [])"
    by (simp add: handleSaveNote_long[OF long] directoryOf_def)
  have rl: "fst (handleReadNote (Str ?long) (Some [])) \<noteq> Inr (textPayload (utf16 ''x''))"
    by (simp add: handleReadNote_Str lookupFile_def directoryOf_def textPayload_def utf16_inject)
  show ?thesis using r ne s rl by simp
qed

text \<open>
  Claim C4. For every title \<open>T\<close> whose file \<^verbatim>\<open>slugify(T) + ".md"\<close> is not in the store,
  \<^verbatim>\<open>read_note(T)\<close> returns (it does not throw) the text that the note was not found,
  with that file name; if the file is there, it returns the whole content of the file,
  decoded, as text.
\<close>

theorem read_note_result:
  "(lookupFile (slugify T @ ''.md'') st = None \<longrightarrow>
      fst (handleReadNote (Str T) st) =
        Inr (textPayload (utf16 (''Note not found: '' @ slugify T @ ''.md'')))) \<and>
   (\<forall>f. lookupFile (slugify T @ ''.md'') st = Some f \<longrightarrow>
      fst (handleReadNote (Str T) st) = Inr (textPayload (utf8Decode (bytes f))))"
  by (simp add: handleReadNote_Str)

theorem read_note_result_witness:
  "lookupFile (slugify ''nonexistent title'' @ ''.md'') None = None \<and>
   fst (handleReadNote (Str ''nonexistent title'') None) =
     Inr (textPayload (utf16 ''Note not found: nonexistent-title.md'')) \<and>
   lookupFile (slugify ''Project Ideas'' @ ''.md'')
     (Some [(''project-ideas.md'',
       \<lparr>bytes = utf8Encode (utf16 ''# Ideas''), mtime = ''2024-05-06T07:08:09.000Z''\<rparr>)]) =
     Some \<lparr>bytes = utf8Encode (utf16 ''# Ideas''), mtime = ''2024-05-06T07:08:09.000Z''\<rparr> \<and>
   fst (handleReadNote (Str ''Project Ideas'')
     (Some [(''project-ideas.md'',
       \<lparr>bytes = utf8Encode (utf16 ''# Ideas''), mtime = ''2024-05-06T07:08:09.000Z''\<rparr>)])) =
     Inr (textPayload (utf16 ''# Ideas''))"
proof -
  let ?f = "\<lparr>bytes = utf8Encode (utf16 ''# Ideas''), mtime = ''2024-05-06T07:08:09.000Z''\<rparr>"
  let ?d = "Some [(''project-ideas.md'', ?f)]"
  have s1: "slugify ''nonexistent title'' = ''nonexistent-title''" by code_simp
  have s2: "slugify ''Project Ideas'' = ''project-ideas''" by code_simp
  have a: "lookupFile (slugify ''nonexistent title'' @ ''.md'') None = None"
    by (simp add: lookupFile_def directoryOf_def)
  have b: "lookupFile (slugify ''Project Ideas'' @ ''.md'') ?d = Some ?f"
    by (simp add: s2 lookupFile_def directoryOf_def)
  from read_note_result[of "''nonexistent title''" None] a
  have c: "fst (handleReadNote (Str ''nonexistent title'') None) =
     Inr (textPayload (utf16 ''Note not found: nonexistent-title.md''))"
    by (simp add: s1)
  from read_note_result[of "''Project Ideas''" ?d] b
  have "fst (handleReadNote (Str ''Project Ideas'') ?d) =
      Inr (textPayload (utf8Decode (bytes ?f)))"
    by blast
  then have d: "fst (handleReadNote (Str ''Project Ideas'') ?d) = Inr (textPayload (utf16 ''# Ideas''))"
    by (simp add: utf8_round_trip utf16_wellFormed)
  from a b c d show ?thesis by blast
qed

text \<open>
  Claim C5. For every tool name other than \<^verbatim>\<open>save_note\<close>, \<^verbatim>\<open>list_notes\<close> and
  \<^verbatim>\<open>read_note\<close>, and every argument bundle, the dispatcher returns (it does not throw)
  the text that the tool of this name is unknown, the store is left as it was, and every
  later request is answered as it would have been without the unknown one.
\<close>

theorem unknown_tool:
  assumes "name \<notin> {''save_note'', ''list_notes'', ''read_note''}"
  shows "processToolCall clock name args st =
           (Inr (textPayload (utf16 (''Unknown tool: '' @ name))), st) \<and>
         callTool clock name args st = (Inr [textPayload (utf16 (''Unknown tool: '' @ name))], st) \<and>
         (\<forall>clock' name' args'.
            processToolCall clock' name' args' (snd (processToolCall clock name args st)) =
            processToolCall clock' name' args' st)"
  using assms by (simp add: processToolCall_def callTool_def)

theorem unknown_tool_witness:
  "''delete_note'' \<notin> {''save_note'', ''list_notes'', ''read_note''} \<and>
   processToolCall ''2024-05-06T07:08:09.000Z'' ''delete_note'' None None =
     (Inr (textPayload (utf16 ''Unknown tool: delete_note'')), None) \<and>
   processToolCall ''2024-05-06T07:08:10.000Z'' ''list_notes'' None
     (snd (processToolCall ''2024-05-06T07:08:09.000Z'' ''delete_note'' None None)) =
   processToolCall ''2024-05-06T07:08:10.000Z'' ''list_notes'' None None"
proof -
  have h: "''delete_note'' \<notin> {''save_note'', ''list_notes'', ''read_note''}" by simp
  from unknown_tool[OF h, of "''2024-05-06T07:08:09.000Z''" None None] h show ?thesis
    by simp
qed

text \<open>
  Claim C6. The claim: for every state of the directory, \<^verbatim>\<open>list_notes\<close> lists exactly the
  files whose names end in \<^verbatim>\<open>.md\<close>, and shows for each the title got by removing the
  \<^verbatim>\<open>.md\<close> extension and replacing hyphens with spaces. The program removes the first
  \<^verbatim>\<open>.md\<close> of the name instead, which need not be the extension: for the file
  \<^verbatim>\<open>a.mdb.md\<close> it shows the title \<^verbatim>\<open>ab.md\<close>, where removing the extension gives
  \<^verbatim>\<open>a.mdb\<close>. The theorem evaluates the program on the directory that holds this one file.
\<close>

theorem list_title_inner_extension:
  "displayTitle ''a.mdb.md'' = ''ab.md'' \<and>
   referenceTitle ''a.mdb.md'' = ''a.mdb'' \<and>
   fst (handleListNotes
     (Some [(''a.mdb.md'',
       \<lparr>bytes = utf8Encode (utf16 ''x''), mtime = ''2024-01-02T03:04:05.000Z''\<rparr>)])) =
   Inr (textPayload (utf16
     ''Available notes:\<newline>\<newline>- **ab.md** (a.mdb.md) - Modified: 2024-01-02''))"
proof -
  have t: "displayTitle ''a.mdb.md'' = ''ab.md''" by code_simp
  have r: "referenceTitle ''a.mdb.md'' = ''a.mdb''" by code_simp
  have f: "noteFiles [''a.mdb.md''] = [''a.mdb.md'']" by code_simp
  have l: "fst (handleListNotes
     (Some [(''a.mdb.md'',
       \<lparr>bytes = utf8Encode (utf16 ''x''), mtime = ''2024-01-02T03:04:05.000Z''\<rparr>)])) =
   Inr (textPayload (utf16
     ''Available notes:\<newline>\<newline>- **ab.md** (a.mdb.md) - Modified: 2024-01-02''))"
    by (simp add: handleListNotes_def ensureNotesDir_eq readdirSync_def directoryOf_def f
        noteLine_def statSync_def lookupFile_def t Let_def)
  from t r l show ?thesis by simp
qed

text \<open>
  Claim C7. For every store in which no file name ends in \<^verbatim>\<open>.md\<close> (an empty directory
  and a directory that did not exist among them), \<^verbatim>\<open>list_notes\<close> returns the text that no
  notes were found; a store that holds a note is never answered with that text.
\<close>

theorem list_notes_empty:
  "(noteFiles (map fst (directoryOf st)) = [] \<longrightarrow>
      fst (handleListNotes st) = Inr (textPayload (utf16 ''No notes found in ~/dev-notes/''))) \<and>
   (noteFiles (map fst (directoryOf st)) \<noteq> [] \<longrightarrow>
      fst (handleListNotes st) \<noteq> Inr (textPayload (utf16 ''No notes found in ~/dev-notes/'')))"
proof (intro conjI impI)
  assume "noteFiles (map fst (directoryOf st)) = []"
  then show "fst (handleListNotes st) = Inr (textPayload (utf16 ''No notes found in ~/dev-notes/''))"
    by (rule handleListNotes_none)
next
  assume "noteFiles (map fst (directoryOf st)) \<noteq> []"
  from handleListNotes_some[OF this] obtain lines where
    "fst (handleListNotes st) =
       Inr (textPayload (utf16 (''Available notes:\<newline>\<newline>'' @ join ''\<newline>'' lines)))"
    by blast
  then show "fst (handleListNotes st) \<noteq> Inr (textPayload (utf16 ''No notes found in ~/dev-notes/''))"
    by (simp add: textPayload_def utf16_inject)
qed

theorem list_notes_empty_witness:
  "noteFiles (map fst (directoryOf None)) = [] \<and>
   fst (handleListNotes None) = Inr (textPayload (utf16 ''No notes found in ~/dev-notes/'')) \<and>
   noteFiles (map fst (directoryOf (Some []))) = [] \<and>
   fst (handleListNotes (Some [])) = Inr (textPayload (utf16 ''No notes found in ~/dev-notes/'')) \<and>
   noteFiles (map fst (directoryOf
     (Some [(''todo.txt'', \<lparr>bytes = utf8Encode (utf16 ''x''), mtime = ''2024-05-06T07:08:09.000Z''\<rparr>)]))) = [] \<and>
   fst (handleListNotes
     (Some [(''todo.txt'', \<lparr>bytes = utf8Encode (utf16 ''x''), mtime = ''2024-05-06T07:08:09.000Z''\<rparr>)])) =
     Inr (textPayload (utf16 ''No notes found in ~/dev-notes/'')) \<and>
   noteFiles (map fst (directoryOf
     (Some [(''a.md'', \<lparr>bytes = utf8Encode (utf16 ''x''), mtime = ''2024-05-06T07:08:09.000Z''\<rparr>)]))) \<noteq> [] \<and>
   fst (handleListNotes
     (Some [(''a.md'', \<lparr>bytes = utf8Encode (utf16 ''x''), mtime = ''2024-05-06T07:08:09.000Z''\<rparr>)])) \<noteq>
     Inr (textPayload (utf16 ''No notes found in ~/dev-notes/''))"
proof -
  let ?t = "Some [(''todo.txt'', \<lparr>bytes = utf8Encode (utf16 ''x''), mtime = ''2024-05-06T07:08:09.000Z''\<rparr>)]"
  let ?a = "Some [(''a.md'', \<lparr>bytes = utf8Encode (utf16 ''x''), mtime = ''2024-05-06T07:08:09.000Z''\<rparr>)]"
  have h1: "noteFiles (map fst (directoryOf None)) = []"
    by (simp add: noteFiles_def directoryOf_def)
  have h2: "noteFiles (map fst (directoryOf (Some []))) = []"
    by (simp add: noteFiles_def directoryOf_def)
  have h3: "noteFiles (map fst (directoryOf ?t)) = []"
    by (simp add: noteFiles_def directoryOf_def endsWith_def suffix_def)
  have h4: "noteFiles (map fst (directoryOf ?a)) \<noteq> []"
    by (simp add: noteFiles_def directoryOf_def endsWith_def suffix_def)
  from list_notes_empty[of None] list_notes_empty[of "Some []"] list_notes_empty[of ?t]
    list_notes_empty[of ?a] h1 h2 h3 h4
  show ?thesis by blast
qed

text \<open>
  Claim C8, as amended. Two titles with the same slug, the file name of which is of at
  most \<open>NAME_MAX\<close> bytes, address the same note: a text saved under one is read under the
  other, each unpaired surrogate replaced by \<open>U+FFFD\<close> and so unchanged when it is well
  formed, and a later save under the other title succeeds and replaces the text, for both
  titles, the directory still holding the same file names.
\<close>

theorem same_slug_same_note:
  assumes "slugify T1 = slugify T2" and "fileNameBytes (slugify T1 @ ''.md'') \<le> NAME_MAX"
  shows "fst (handleReadNote (Str T2) (snd (handleSaveNote clock (Str T1) (Str C) st))) =
           Inr (textPayload (toWellFormed C)) \<and>
         (isWellFormed C \<longrightarrow>
            fst (handleReadNote (Str T2) (snd (handleSaveNote clock (Str T1) (Str C) st))) =
              Inr (textPayload C)) \<and>
         fst (handleSaveNote clock2 (Str T2) (Str C2)
               (snd (handleSaveNote clock1 (Str T1) (Str C1) st))) =
           Inr (textPayload (utf16 (''Note saved successfully: '' @ slugify T1 @ ''.md''))) \<and>
         fst (handleReadNote (Str T1)
               (snd (handleSaveNote clock2 (Str T2) (Str C2)
                 (snd (handleSaveNote clock1 (Str T1) (Str C1) st))))) =
           Inr (textPayload (toWellFormed C2)) \<and>
         fst (handleReadNote (Str T2)
               (snd (handleSaveNote clock2 (Str T2) (Str C2)
                 (snd (handleSaveNote clock1 (Str T1) (Str C1) st))))) =
           Inr (textPayload (toWellFormed C2)) \<and>
         (isWellFormed C2 \<longrightarrow>
            fst (handleReadNote (Str T1)
               (snd (handleSaveNote clock2 (Str T2) (Str C2)
                 (snd (handleSaveNote clock1 (Str T1) (Str C1) st))))) = Inr (textPayload C2)) \<and>
         map fst (directoryOf (snd (handleSaveNote clock2 (Str T2) (Str C2)
                 (snd (handleSaveNote clock1 (Str T1) (Str C1) st))))) =
         map fst (directoryOf (snd (handleSaveNote clock1 (Str T1) (Str C1) st)))"
proof -
  have fit2: "fileNameBytes (slugify T2 @ ''.md'') \<le> NAME_MAX"
    using assms by simp
  have in_names: "name \<in> set (map fst (putFile name f d))" for name f d
    by (simp add: names_putFile)
  have again: "map fst (putFile name g (putFile name f d)) = map fst (putFile name f d)"
    for name f g d
    using in_names[of name f d] by (simp only: names_putFile[of name g] if_True)
  show ?thesis
    using assms(1)[symmetric]
    by (simp add: handleSaveNote_Str[OF assms(2)] handleSaveNote_Str[OF fit2] handleReadNote_Str
        lookupFile_saved directoryOf_def again utf8Decode_utf8Encode toWellFormed_fixed)
qed

theorem same_slug_same_note_witness:
  "slugify ''Project Ideas'' = slugify ''  project   IDEAS!'' \<and>
   fileNameBytes (slugify ''Project Ideas'' @ ''.md'') \<le> NAME_MAX \<and>
   isWellFormed (utf16 ''# Ideas'') \<and>
   fst (handleReadNote (Str ''  project   IDEAS!'')
     (snd (handleSaveNote ''2024-05-06T07:08:09.000Z'' (Str ''Project Ideas'')
       (Str (utf16 ''# Ideas'')) None))) = Inr (textPayload (utf16 ''# Ideas'')) \<and>
   isWellFormed (utf16 ''# New'') \<and>
   fst (handleReadNote (Str ''Project Ideas'')
     (snd (handleSaveNote ''2024-05-07T07:08:09.000Z'' (Str ''  project   IDEAS!'') (Str (utf16 ''# New''))
       (snd (handleSaveNote ''2024-05-06T07:08:09.000Z'' (Str ''Project Ideas'')
         (Str (utf16 ''# Ideas'')) None))))) = Inr (textPayload (utf16 ''# New''))"
proof -
  have s: "slugify ''Project Ideas'' = ''project-ideas''" by code_simp
  have h: "slugify ''Project Ideas'' = slugify ''  project   IDEAS!''" by code_simp
  have fit: "fileNameBytes (slugify ''Project Ideas'' @ ''.md'') \<le> NAME_MAX"
    by (simp only: fileNameBytes_slug) (simp add: s NAME_MAX_def)
  have w1: "isWellFormed (utf16 ''# Ideas'')" and w2: "isWellFormed (utf16 ''# New'')"
    by (rule utf16_wellFormed)+
  from same_slug_same_note[OF h fit, of "''2024-05-06T07:08:09.000Z''" "utf16 ''# Ideas''" None
      "''2024-05-07T07:08:09.000Z''" "utf16 ''# New''" "''2024-05-06T07:08:09.000Z''" "utf16 ''# Ideas''"]
    h fit w1 w2
  show ?thesis by blast
qed

text \<open>
  As C8 was first stated, for all texts and all titles of one slug, it fails like the
  round trip: the text \<^verbatim>\<open>a\ud800b\<close> saved under \<^verbatim>\<open>Note\<close> is read under \<^verbatim>\<open>note\<close> as
  \<^verbatim>\<open>a\ufffdb\<close>, and under a title of 253 letters the later save throws \<open>ENAMETOOLONG\<close>.
\<close>

theorem same_slug_same_note_counterexample:
  "slugify ''Note'' = slugify ''note'' \<and>
   fst (handleReadNote (Str ''note'')
     (snd (handleSaveNote ''2024-05-06T07:08:09.000Z'' (Str ''Note'') (Str [0x61, 0xD800, 0x62]) None))) =
     Inr (textPayload [0x61, 0xFFFD, 0x62]) \<and>
   fst (handleReadNote (Str ''note'')
     (snd (handleSaveNote ''2024-05-06T07:08:09.000Z'' (Str ''Note'') (Str [0x61, 0xD800, 0x62]) None))) \<noteq>
     Inr (textPayload [0x61, 0xD800, 0x62]) \<and>
   slugify (replicate 253 CHR ''a'') = slugify (replicate 253 CHR ''a'') \<and>
   fst (handleSaveNote ''2024-05-07T07:08:09.000Z'' (Str (replicate 253 CHR ''a'')) (Str (utf16 ''y''))
     (snd (handleSaveNote ''2024-05-06T07:08:09.000Z'' (Str (replicate 253 CHR ''a''))
       (Str (utf16 ''x'')) None))) = Inl ENAMETOOLONG"
proof -
  let ?clock = "''2024-05-06T07:08:09.000Z''"
  let ?long = "replicate 253 CHR ''a''"
  have s1: "slugify ''Note'' = ''note''" by code_simp
  have s2: "slugify ''note'' = ''note''" by code_simp
  have fit: "fileNameBytes (slugify ''Note'' @ ''.md'') \<le> NAME_MAX"
    by (simp only: fileNameBytes_slug) (simp add: s1 NAME_MAX_def)
  have dec: "utf8Decode (utf8Encode [0x61, 0xD800, 0x62]) = [0x61, 0xFFFD, 0x62]"
    by (simp only: utf8Decode_utf8Encode toWellFormed_example)
  have r: "fst (handleReadNote (Str ''note'')
      (snd (handleSaveNote ?clock (Str ''Note'') (Str [0x61, 0xD800, 0x62]) None))) =
      Inr (textPayload [0x61, 0xFFFD, 0x62])"
    by (simp add: handleSaveNote_Str[OF fit] handleReadNote_Str s1 s2 lookupFile_saved dec)
  have ne: "Inr (textPayload [0x61, 0xFFFD, 0x62]) \<noteq>
      (Inr (textPayload [0x61, 0xD800, 0x62]) :: error + payload)"
    by (simp add: textPayload_def)
  have long: "NAME_MAX < fileNameBytes (slugify ?long @ ''.md'')"
    by (simp only: fileNameBytes_slug) (simp add: slugify_replicate_a NAME_MAX_def)
  have s: "fst (handleSaveNote clock (Str ?long) (Str C) st) = Inl ENAMETOOLONG" for clock C st
    by (simp add: handleSaveNote_long[OF long])
  show ?thesis using r ne s by (simp add: s1 s2)
qed

text \<open>
  Claim C10. \<^verbatim>\<open>list_notes\<close> and \<^verbatim>\<open>read_note\<close> change no stored note: the files of the
  store and the file found under each name are the same after the call as before, the
  one change possible being that a directory that did not exist is now there, empty.
\<close>

theorem list_and_read_keep_notes:
  "snd (handleListNotes st) = (case st of None \<Rightarrow> Some [] | Some d \<Rightarrow> Some d) \<and>
   snd (handleReadNote title st) = (case st of None \<Rightarrow> Some [] | Some d \<Rightarrow> Some d) \<and>
   directoryOf (snd (handleListNotes st)) = directoryOf st \<and>
   directoryOf (snd (handleReadNote title st)) = directoryOf st \<and>
   (\<forall>name. lookupFile name (snd (handleListNotes st)) = lookupFile name st) \<and>
   (\<forall>name. lookupFile name (snd (handleReadNote title st)) = lookupFile name st)"
  by (cases st) (simp_all add: handleListNotes_state handleReadNote_state lookupFile_def directoryOf_def)

end
